theory Spec2Isabelle
  imports Complex_Main "HOL-Library.AList" "HOL-Library.Word"
begin

section \<open>JavaScript values\<close>

text \<open>
  The worker is JavaScript. A JavaScript string is a sequence of UTF-16 code units, so a
  string is a list of code units (natural numbers; a real string has units below 65536).
  \<open>js\<close> turns an ASCII literal of the source into such a string. Bytes of a
  \<open>Uint8Array\<close> are 8-bit words.

  Numbers are mathematical integers: every number the worker itself produces
  (\<open>Date.now()\<close>, seconds, counters) is an integer far below \<open>2^53\<close>, where
  double arithmetic is exact. Fractions, \<open>NaN\<close> and the infinities are outside the model.
\<close>

type_synonym jsstring = "nat list"

type_synonym byte = "8 word"

definition js :: "string \<Rightarrow> jsstring" where
  "js s = map of_char s"

datatype jsval =
    JUndefined
  | JNull
  | JBool bool
  | JNum int
  | JStr jsstring
  | JArr "jsval list"
  | JObj "(jsstring \<times> jsval) list"

text \<open>
  Exceptions. \<open>Error m\<close> is \<open>new Error(m)\<close> thrown by the worker's own code;
  \<open>Builtin e\<close> is an exception raised by a builtin of the platform;
  \<open>TokenVerificationFailed e\<close> is the
  \<open>new Error(`Token verification failed: ${error.message}`)\<close> of \<open>verifyJWT\<close>, which
  carries the message of its cause \<open>e\<close>.
\<close>

datatype builtin_error =
    InvalidCharacterError
  | SyntaxError
  | TypeError
  | RangeError
  | DataError
  | NetworkError
  | StoreError

datatype js_error =
    Error string
  | Builtin builtin_error
  | TokenVerificationFailed js_error

text \<open>Truthiness, as \<open>!x\<close>, \<open>x && y\<close> and \<open>if (x)\<close> read a value.\<close>

fun truthy :: "jsval \<Rightarrow> bool" where
  "truthy JUndefined = False"
| "truthy JNull = False"
| "truthy (JBool b) = b"
| "truthy (JNum n) = (n \<noteq> 0)"
| "truthy (JStr s) = (s \<noteq> [])"
| "truthy (JArr xs) = True"
| "truthy (JObj ps) = True"

text \<open>
  Property access \<open>v.k\<close> for the names the worker reads (\<open>exp\<close>, \<open>type\<close>, \<open>userId\<close>,
  \<open>iat\<close>): a \<open>TypeError\<close> on \<open>null\<close> and \<open>undefined\<close>, the own property of
  an object, and \<open>undefined\<close> otherwise (no primitive, array or prototype has one of these
  names).
\<close>

fun get_prop :: "jsval \<Rightarrow> string \<Rightarrow> builtin_error + jsval" where
  "get_prop JUndefined k = Inl TypeError"
| "get_prop JNull k = Inl TypeError"
| "get_prop (JObj ps) k = Inr (case map_of ps (js k) of Some v \<Rightarrow> v | None \<Rightarrow> JUndefined)"
| "get_prop v k = Inr JUndefined"

subsection \<open>Numbers and strings as text\<close>

fun nat_digits :: "nat \<Rightarrow> jsstring" where
  "nat_digits n = (if n < 10 then [48 + n] else nat_digits (n div 10) @ [48 + n mod 10])"

declare nat_digits.simps [simp del]

text \<open>\<open>Number.prototype.toString\<close> on an integer (below \<open>10^21\<close> it is the decimal numeral).\<close>

definition Number_toString :: "int \<Rightarrow> jsstring" where
  "Number_toString n = (if n < 0 then 45 # nat_digits (nat (- n)) else nat_digits (nat n))"

fun join_with :: "nat \<Rightarrow> jsstring list \<Rightarrow> jsstring" where
  "join_with sep [] = []"
| "join_with sep [x] = x"
| "join_with sep (x # y # ys) = x @ sep # join_with sep (y # ys)"

text \<open>
  \<open>ToString\<close>, as a template literal and an array's \<open>join\<close> apply it. An array joins
  its elements with commas (\<open>null\<close> and \<open>undefined\<close> elements as the empty string). An
  object goes through its \<open>toString\<close> and \<open>valueOf\<close>: with the inherited
  \<open>Object.prototype.toString\<close> it is \<open>[object Object]\<close>; an own property
  \<open>toString\<close> (a JSON value, never a function) hides the inherited one, no method returns
  a primitive, and the conversion throws a \<open>TypeError\<close>.
\<close>

fun ToString :: "jsval \<Rightarrow> builtin_error + jsstring"
  and ToString_elements :: "jsval list \<Rightarrow> builtin_error + jsstring list" where
  "ToString JUndefined = Inr (js ''undefined'')"
| "ToString JNull = Inr (js ''null'')"
| "ToString (JBool b) = Inr (if b then js ''true'' else js ''false'')"
| "ToString (JNum n) = Inr (Number_toString n)"
| "ToString (JStr s) = Inr s"
| "ToString (JArr xs) =
     (case ToString_elements xs of
        Inl error \<Rightarrow> Inl error
      | Inr parts \<Rightarrow> Inr (join_with 44 parts))"
| "ToString (JObj ps) =
     (if map_of ps (js ''toString'') \<noteq> None then Inl TypeError
      else Inr (js ''[object Object]''))"
| "ToString_elements [] = Inr []"
| "ToString_elements (x # xs) =
     (case (if x = JUndefined \<or> x = JNull then Inr [] else ToString x) of
        Inl error \<Rightarrow> Inl error
      | Inr part \<Rightarrow>
         (case ToString_elements xs of
            Inl error \<Rightarrow> Inl error
          | Inr parts \<Rightarrow> Inr (part # parts)))"

subsection \<open>JSON.stringify\<close>

definition hex_digit :: "nat \<Rightarrow> nat" where
  "hex_digit d = (if d < 10 then 48 + d else 87 + d)"

definition unicode_escape :: "nat \<Rightarrow> jsstring" where
  "unicode_escape c =
     [92, 117, hex_digit (c div 4096 mod 16), hex_digit (c div 256 mod 16),
      hex_digit (c div 16 mod 16), hex_digit (c mod 16)]"

definition is_high_surrogate :: "nat \<Rightarrow> bool" where
  "is_high_surrogate c = (55296 \<le> c \<and> c \<le> 56319)"

definition is_low_surrogate :: "nat \<Rightarrow> bool" where
  "is_low_surrogate c = (56320 \<le> c \<and> c \<le> 57343)"

text \<open>
  One code unit inside a JSON string literal: the two-character escapes, \<open>\u00XX\<close> for
  the other control characters and \<open>\uDXXX\<close> for a surrogate that is not part of a pair;
  every other unit stands for itself.
\<close>

definition quote_unit :: "nat \<Rightarrow> jsstring" where
  "quote_unit c =
     (if c = 8 then [92, 98]
      else if c = 9 then [92, 116]
      else if c = 10 then [92, 110]
      else if c = 12 then [92, 102]
      else if c = 13 then [92, 114]
      else if c = 34 then [92, 34]
      else if c = 92 then [92, 92]
      else if c < 32 \<or> is_high_surrogate c \<or> is_low_surrogate c then unicode_escape c
      else [c])"

fun quote_units :: "jsstring \<Rightarrow> jsstring" where
  "quote_units [] = []"
| "quote_units [c] = quote_unit c"
| "quote_units (c # d # cs) =
     (if is_high_surrogate c \<and> is_low_surrogate d then c # d # quote_units cs
      else quote_unit c @ quote_units (d # cs))"

definition QuoteJSONString :: "jsstring \<Rightarrow> jsstring" where
  "QuoteJSONString s = 34 # quote_units s @ [34]"

text \<open>
  \<open>JSON.stringify\<close>. A property whose value is \<open>undefined\<close> is left out, an
  \<open>undefined\<close> array element is written \<open>null\<close>. Properties are written in the order
  of the list. At the top level \<open>JSON.stringify(undefined)\<close> is \<open>undefined\<close>, which
  \<open>btoa\<close> reads as the string \<open>undefined\<close>.
\<close>

fun JSON_stringify :: "jsval \<Rightarrow> jsstring"
  and stringify_elements :: "jsval list \<Rightarrow> jsstring list"
  and stringify_members :: "(jsstring \<times> jsval) list \<Rightarrow> jsstring list" where
  "JSON_stringify JUndefined = js ''undefined''"
| "JSON_stringify JNull = js ''null''"
| "JSON_stringify (JBool b) = (if b then js ''true'' else js ''false'')"
| "JSON_stringify (JNum n) = Number_toString n"
| "JSON_stringify (JStr s) = QuoteJSONString s"
| "JSON_stringify (JArr xs) = 91 # join_with 44 (stringify_elements xs) @ [93]"
| "JSON_stringify (JObj ps) = 123 # join_with 44 (stringify_members ps) @ [125]"
| "stringify_elements [] = []"
| "stringify_elements (x # xs) =
     (if x = JUndefined then js ''null'' else JSON_stringify x) # stringify_elements xs"
| "stringify_members [] = []"
| "stringify_members ((k, v) # ps) =
     (if v = JUndefined then stringify_members ps
      else (QuoteJSONString k @ 58 # JSON_stringify v) # stringify_members ps)"

section \<open>Base64: btoa and atob\<close>

definition b64_char :: "nat \<Rightarrow> nat" where
  "b64_char n =
     (if n < 26 then 65 + n
      else if n < 52 then 71 + n
      else if n < 62 then n - 4
      else if n = 62 then 43
      else 47)"

definition b64_index :: "nat \<Rightarrow> nat option" where
  "b64_index c =
     (if 65 \<le> c \<and> c \<le> 90 then Some (c - 65)
      else if 97 \<le> c \<and> c \<le> 122 then Some (c - 71)
      else if 48 \<le> c \<and> c \<le> 57 then Some (c + 4)
      else if c = 43 then Some 62
      else if c = 47 then Some 63
      else None)"

fun b64_encode :: "nat list \<Rightarrow> jsstring" where
  "b64_encode [] = []"
| "b64_encode [a] = [b64_char (a div 4), b64_char (a mod 4 * 16), 61, 61]"
| "b64_encode [a, b] =
     [b64_char (a div 4), b64_char (a mod 4 * 16 + b div 16), b64_char (b mod 16 * 4), 61]"
| "b64_encode (a # b # c # rest) =
     b64_char (a div 4) # b64_char (a mod 4 * 16 + b div 16) #
     b64_char (b mod 16 * 4 + c div 64) # b64_char (c mod 64) # b64_encode rest"

text \<open>
  \<open>btoa\<close> throws \<open>InvalidCharacterError\<close> when its argument has a code unit above
  \<open>0xFF\<close>; otherwise it encodes the units as bytes.
\<close>

definition btoa :: "jsstring \<Rightarrow> builtin_error + jsstring" where
  "btoa s = (if list_ex (\<lambda>c. 255 < c) s then Inl InvalidCharacterError else Inr (b64_encode s))"

definition is_ascii_whitespace :: "nat \<Rightarrow> bool" where
  "is_ascii_whitespace c = (c = 9 \<or> c = 10 \<or> c = 12 \<or> c = 13 \<or> c = 32)"

fun strip_padding :: "jsstring \<Rightarrow> jsstring" where
  "strip_padding s =
     (if 2 \<le> length s \<and> drop (length s - 2) s = [61, 61] then take (length s - 2) s
      else if 1 \<le> length s \<and> drop (length s - 1) s = [61] then take (length s - 1) s
      else s)"

fun b64_decode :: "nat list \<Rightarrow> nat list" where
  "b64_decode (a # b # c # d # rest) =
     (a * 4 + b div 16) # (b mod 16 * 16 + c div 4) # (c mod 4 * 64 + d) # b64_decode rest"
| "b64_decode [a, b, c] = [a * 4 + b div 16, b mod 16 * 16 + c div 4]"
| "b64_decode [a, b] = [a * 4 + b div 16]"
| "b64_decode xs = []"

text \<open>
  \<open>atob\<close> is the forgiving base64 decoder: ASCII whitespace is dropped; when the length
  is then a multiple of four, one or two trailing \<open>=\<close> are dropped; a length of one modulo
  four, or a character outside the alphabet, throws \<open>InvalidCharacterError\<close>; the sextets
  are decoded and the bits left over are discarded.
\<close>

definition atob :: "jsstring \<Rightarrow> builtin_error + jsstring" where
  "atob data =
     (let d1 = filter (\<lambda>c. \<not> is_ascii_whitespace c) data;
          d2 = (if length d1 mod 4 = 0 then strip_padding d1 else d1)
      in if length d2 mod 4 = 1 then Inl InvalidCharacterError
         else if list_ex (\<lambda>c. b64_index c = None) d2 then Inl InvalidCharacterError
         else Inr (b64_decode (map (\<lambda>c. case b64_index c of Some n \<Rightarrow> n | None \<Rightarrow> 0) d2)))"

section \<open>The platform\<close>

text \<open>
  The builtins whose algorithm is not part of this repository are taken from the platform:
  \<^item> \<open>importKey secret\<close> is
    \<open>crypto.subtle.importKey('raw', new TextEncoder().encode(secret), {name: 'HMAC', hash: 'SHA-256'}, ...)\<close>,
    which may reject the key material;
  \<^item> \<open>HMAC_SHA256 key data\<close> is the tag
    \<open>crypto.subtle.sign('HMAC', key, new TextEncoder().encode(data))\<close>;
    \<open>crypto.subtle.verify\<close> recomputes the tag and compares it with the signature;
  \<^item> \<open>JSON_parse\<close> is \<open>JSON.parse\<close>;
  \<^item> \<open>StringToNumber_lt s now\<close> is \<open>s < now / 1000\<close> for a string \<open>s\<close> (the string is
    converted to a number) and \<open>now\<close> in milliseconds;
  \<^item> \<open>toISOString\<close> is \<open>new Date(ms).toISOString()\<close>.
\<close>

record platform =
  importKey :: "jsstring \<Rightarrow> builtin_error + byte list"
  HMAC_SHA256 :: "byte list \<Rightarrow> jsstring \<Rightarrow> byte list"
  JSON_parse :: "jsstring \<Rightarrow> builtin_error + jsval"
  StringToNumber_lt :: "jsstring \<Rightarrow> int \<Rightarrow> bool"
  toISOString :: "int \<Rightarrow> jsstring"

section \<open>The credential codec\<close>

text \<open>\<open>s.split(sep)\<close> for a one-character separator.\<close>

fun split_on :: "nat \<Rightarrow> jsstring \<Rightarrow> jsstring list" where
  "split_on sep [] = [[]]"
| "split_on sep (c # cs) =
     (if c = sep then [] # split_on sep cs
      else (case split_on sep cs of [] \<Rightarrow> [[c]] | p # ps \<Rightarrow> (c # p) # ps))"

definition jwt_header :: jsval where
  "jwt_header = JObj [(js ''alg'', JStr (js ''HS256'')), (js ''typ'', JStr (js ''JWT''))]"

text \<open>
  \<open>signJWT(payload, secret)\<close>. \<open>String.fromCharCode(...new Uint8Array(signature))\<close> is
  the string of the tag's bytes.
\<close>

definition signJWT :: "platform \<Rightarrow> jsval \<Rightarrow> jsstring \<Rightarrow> js_error + jsstring" where
  "signJWT pf payload secret =
     (case btoa (JSON_stringify jwt_header) of
        Inl e \<Rightarrow> Inl (Builtin e)
      | Inr encodedHeader \<Rightarrow>
     (case btoa (JSON_stringify payload) of
        Inl e \<Rightarrow> Inl (Builtin e)
      | Inr encodedPayload \<Rightarrow>
     (let data = encodedHeader @ 46 # encodedPayload in
      case importKey pf secret of
        Inl e \<Rightarrow> Inl (Builtin e)
      | Inr key \<Rightarrow>
     (let signature = HMAC_SHA256 pf key data in
      case btoa (map unat signature) of
        Inl e \<Rightarrow> Inl (Builtin e)
      | Inr encodedSignature \<Rightarrow> Inr (data @ 46 # encodedSignature)))))"

text \<open>
  \<open>payload.exp < Date.now() / 1000\<close>, with \<open>now\<close> the reading of \<open>Date.now()\<close> in
  milliseconds: a number is compared as it is, a boolean and \<open>null\<close> as 1, 0 and 0, a
  string through its conversion to a number; an array and an object are first converted to a
  string, which can throw; \<open>undefined\<close> and an ordinary object (both \<open>NaN\<close>) are never
  less.
\<close>

fun less_than_seconds :: "platform \<Rightarrow> jsval \<Rightarrow> int \<Rightarrow> builtin_error + bool" where
  "less_than_seconds pf JUndefined now = Inr False"
| "less_than_seconds pf JNull now = Inr (0 < now)"
| "less_than_seconds pf (JBool b) now = Inr ((if b then 1000 else 0) < now)"
| "less_than_seconds pf (JNum n) now = Inr (n * 1000 < now)"
| "less_than_seconds pf (JStr s) now = Inr (StringToNumber_lt pf s now)"
| "less_than_seconds pf (JArr xs) now =
     (case ToString (JArr xs) of
        Inl error \<Rightarrow> Inl error
      | Inr s \<Rightarrow> Inr (StringToNumber_lt pf s now))"
| "less_than_seconds pf (JObj ps) now =
     (case ToString (JObj ps) of
        Inl error \<Rightarrow> Inl error
      | Inr s \<Rightarrow> Inr False)"

text \<open>
  The body of the \<open>try\<close> block of \<open>verifyJWT(token, secret)\<close>; \<open>now\<close> is the reading
  of \<open>Date.now()\<close>. The destructuring \<open>[encodedHeader, encodedPayload, encodedSignature]\<close>
  takes the first three segments (\<open>undefined\<close> where there is none) and ignores the rest.
\<close>

definition verifyJWT_try :: "platform \<Rightarrow> jsstring \<Rightarrow> jsstring \<Rightarrow> int \<Rightarrow> js_error + jsval" where
  "verifyJWT_try pf token secret now =
     (case split_on 46 token of
        encodedHeader # encodedPayload # encodedSignature # ignored \<Rightarrow>
          if encodedHeader = [] \<or> encodedPayload = [] \<or> encodedSignature = []
          then Inl (Error ''Invalid token format'')
          else
           (let data = encodedHeader @ 46 # encodedPayload in
            case importKey pf secret of
              Inl e \<Rightarrow> Inl (Builtin e)
            | Inr key \<Rightarrow>
           (case atob encodedSignature of
              Inl e \<Rightarrow> Inl (Builtin e)
            | Inr decodedSignature \<Rightarrow>
           (let signature = map of_nat decodedSignature :: byte list;
                isValid = (HMAC_SHA256 pf key data = signature)
            in if \<not> isValid then Inl (Error ''Invalid signature'')
               else
                (case atob encodedPayload of
                   Inl e \<Rightarrow> Inl (Builtin e)
                 | Inr text \<Rightarrow>
                (case JSON_parse pf text of
                   Inl e \<Rightarrow> Inl (Builtin e)
                 | Inr payload \<Rightarrow>
                (case get_prop payload ''exp'' of
                   Inl e \<Rightarrow> Inl (Builtin e)
                 | Inr exp' \<Rightarrow>
                     if \<not> truthy exp' then Inr payload
                     else
                      (case less_than_seconds pf exp' now of
                         Inl e \<Rightarrow> Inl (Builtin e)
                       | Inr expired \<Rightarrow>
                           if expired then Inl (Error ''Token expired'')
                           else Inr payload)))))))
      | fewer \<Rightarrow> Inl (Error ''Invalid token format''))"

definition verifyJWT :: "platform \<Rightarrow> jsstring \<Rightarrow> jsstring \<Rightarrow> int \<Rightarrow> js_error + jsval" where
  "verifyJWT pf token secret now =
     (case verifyJWT_try pf token secret now of
        Inl error \<Rightarrow> Inl (TokenVerificationFailed error)
      | Inr payload \<Rightarrow> Inr payload)"

text \<open>\<open>verifyAnonymousToken(token, secret)\<close>: every failure becomes one error.\<close>

definition verifyAnonymousToken :: "platform \<Rightarrow> jsstring \<Rightarrow> jsstring \<Rightarrow> int \<Rightarrow> js_error + jsval" where
  "verifyAnonymousToken pf token secret now =
     (case verifyJWT pf token secret now of
        Inl error \<Rightarrow> Inl (Error ''Invalid anonymous token'')
      | Inr payload \<Rightarrow>
     (case get_prop payload ''type'' of
        Inl error \<Rightarrow> Inl (Error ''Invalid anonymous token'')
      | Inr t \<Rightarrow>
          if t \<noteq> JStr (js ''anonymous'') then Inl (Error ''Invalid anonymous token'')
          else Inr payload))"

text \<open>\<open>generateAnonymousToken(userId, env)\<close>, with \<open>secret\<close> the \<open>env.JWT_SECRET\<close>.\<close>

definition anonymous_payload :: "jsval \<Rightarrow> int \<Rightarrow> int \<Rightarrow> jsval" where
  "anonymous_payload userId iat exp' =
     JObj [(js ''userId'', userId), (js ''iat'', JNum iat), (js ''exp'', JNum exp'),
           (js ''type'', JStr (js ''anonymous''))]"

definition generateAnonymousToken :: "platform \<Rightarrow> jsstring \<Rightarrow> jsstring \<Rightarrow> int \<Rightarrow> js_error + jsstring" where
  "generateAnonymousToken pf userId secret now_ms =
     (let now = now_ms div 1000;
          exp' = now + 30 * 24 * 60 * 60
      in signJWT pf (anonymous_payload (JStr userId) now exp') secret)"

section \<open>The key-value namespaces\<close>

text \<open>
  A KV namespace maps a key to a value and the \<open>expirationTtl\<close> (seconds) it was put with.
  The worker is the only writer of its namespaces and writes \<open>JSON.stringify\<close> of a
  timestamp array or of a statistics object, which \<open>JSON.parse\<close> reads back; the model
  keeps the decoded value. A \<open>get\<close> or a \<open>put\<close> of the store can throw: the two flags
  say whether the reads and the writes of the namespace fail. A read returns what was last
  written: the delay of the store between a write and its visibility is not modelled, nor is
  the expiry of a key (an expired key reads as absent, like a key that was never written).
\<close>

record 'v kv_namespace =
  entries :: "jsstring \<rightharpoonup> 'v \<times> nat option"
  get_fails :: bool
  put_fails :: bool

definition kv_get :: "'v kv_namespace \<Rightarrow> jsstring \<Rightarrow> builtin_error + 'v option" where
  "kv_get ns key = (if get_fails ns then Inl StoreError else Inr (map_option fst (entries ns key)))"

definition kv_put :: "'v kv_namespace \<Rightarrow> jsstring \<Rightarrow> 'v \<Rightarrow> nat option \<Rightarrow> builtin_error + 'v kv_namespace" where
  "kv_put ns key v ttl =
     (if put_fails ns then Inl StoreError
      else Inr (ns\<lparr>entries := (entries ns)(key \<mapsto> (v, ttl))\<rparr>))"

text \<open>
  The statistics object. A key of \<open>dailyRequests\<close> is a calendar date \<open>YYYY-MM-DD\<close>
  (UTC), kept as the number of its day since 1970-01-01: \<open>toISODate now\<close> is
  \<open>new Date(now).toISOString().split('T')[0]\<close> and \<open>Date_of d\<close> is the time value of
  \<open>new Date(d)\<close>, the midnight that starts the day. The properties of \<open>dailyRequests\<close>
  are kept in insertion order.
\<close>

record user_stats =
  createdAt :: int
  totalRequests :: int
  lastRequestAt :: "int option"
  dailyRequests :: "(int \<times> int) list"

definition toISODate :: "int \<Rightarrow> int" where
  "toISODate now = now div 86400000"

definition Date_of :: "int \<Rightarrow> int" where
  "Date_of d = d * 86400000"

record env =
  ALLOWED_ORIGIN :: "jsstring option"
  JWT_SECRET :: jsstring
  EXTERNAL_API_URL :: jsstring
  EXTERNAL_API_KEY :: jsstring
  RATE_LIMIT_KV :: "int list kv_namespace"
  USER_STATS_KV :: "user_stats kv_namespace"

section \<open>Usage statistics\<close>

text \<open>
  An identity is a string (\<open>generateAnonymousUserId\<close> returns one). The functions of this
  section and of the next read their \<open>userId\<close> only inside the template literals
  \<open>`user_stats:${userId}`\<close> and \<open>`rate_limit:${userId}`\<close>, so they are modelled on the
  string that the literal makes of the argument; \<open>handleExternalApiRequest\<close>, which can
  pass the \<open>userId\<close> of any payload, converts it at the call.

  \<open>initializeUserStats(userId, env)\<close>; a failure of the store is logged and swallowed.
\<close>

definition initializeUserStats :: "env \<Rightarrow> jsstring \<Rightarrow> int \<Rightarrow> env" where
  "initializeUserStats e userId now =
     (let statsKey = js ''user_stats:'' @ userId;
          stats = \<lparr>createdAt = now, totalRequests = 0, lastRequestAt = None, dailyRequests = []\<rparr>
      in case kv_put (USER_STATS_KV e) statsKey stats None of
           Inl error \<Rightarrow> e
         | Inr kv \<Rightarrow> e\<lparr>USER_STATS_KV := kv\<rparr>)"

text \<open>\<open>(stats.dailyRequests[today] || 0) + 1\<close>.\<close>

definition bump :: "(int \<times> int) list \<Rightarrow> int \<Rightarrow> int" where
  "bump daily today =
     (case map_of daily today of None \<Rightarrow> 0 | Some c \<Rightarrow> if c \<noteq> 0 then c else 0) + 1"

text \<open>
  \<open>updateUserStats(userId, env)\<close>, with \<open>now\<close> its reading of \<open>Date.now()\<close>. The
  \<open>forEach\<close> over \<open>Object.keys(stats.dailyRequests)\<close> deletes every date before the
  cutoff. A failure of the store is logged and swallowed.
\<close>

definition updateUserStats :: "env \<Rightarrow> jsstring \<Rightarrow> int \<Rightarrow> env" where
  "updateUserStats e userId now =
     (let statsKey = js ''user_stats:'' @ userId;
          today = toISODate now
      in case kv_get (USER_STATS_KV e) statsKey of
           Inl error \<Rightarrow> e
         | Inr existingStats \<Rightarrow>
        (let stats = (case existingStats of
                        Some s \<Rightarrow> s
                      | None \<Rightarrow> \<lparr>createdAt = now, totalRequests = 0, lastRequestAt = None,
                                 dailyRequests = []\<rparr>);
             stats = stats\<lparr>totalRequests := totalRequests stats + 1\<rparr>;
             stats = stats\<lparr>lastRequestAt := Some now\<rparr>;
             stats = stats\<lparr>dailyRequests :=
                       AList.update today (bump (dailyRequests stats) today) (dailyRequests stats)\<rparr>;
             cutoffDate = now - 30 * 24 * 60 * 60 * 1000;
             stats = stats\<lparr>dailyRequests :=
                       filter (\<lambda>(date, n). \<not> Date_of date < cutoffDate) (dailyRequests stats)\<rparr>
         in case kv_put (USER_STATS_KV e) statsKey stats None of
              Inl error \<Rightarrow> e
            | Inr kv \<Rightarrow> e\<lparr>USER_STATS_KV := kv\<rparr>))"

section \<open>The rate limiter\<close>

definition windowMs :: int where
  "windowMs = 60 * 60 * 1000"

definition maxRequests :: nat where
  "maxRequests = 100"

text \<open>\<open>Math.ceil(a / b)\<close> for integers \<open>a\<close> and a positive integer \<open>b\<close>.\<close>

definition Math_ceil_div :: "int \<Rightarrow> int \<Rightarrow> int" where
  "Math_ceil_div a b = - ((- a) div b)"

record rate_limit_result =
  allowed :: bool
  retryAfter :: "int option"

text \<open>
  \<open>checkRateLimit(userId, env)\<close>; \<open>now\<close> is its reading of \<open>Date.now()\<close> and
  \<open>now_stats\<close> the later reading inside \<open>updateUserStats\<close>. \<open>Math.min\<close> is taken
  of at least \<open>maxRequests\<close> timestamps. Every exception inside the \<open>try\<close> block ends in
  \<open>{ allowed: true }\<close>.
\<close>

definition checkRateLimit :: "env \<Rightarrow> jsstring \<Rightarrow> int \<Rightarrow> int \<Rightarrow> rate_limit_result \<times> env" where
  "checkRateLimit e userId now now_stats =
     (let rateLimitKey = js ''rate_limit:'' @ userId in
      case kv_get (RATE_LIMIT_KV e) rateLimitKey of
        Inl error \<Rightarrow> (\<lparr>allowed = True, retryAfter = None\<rparr>, e)
      | Inr rateData \<Rightarrow>
     (let requests = (case rateData of None \<Rightarrow> [] | Some stored \<Rightarrow> stored);
          requests = filter (\<lambda>timestamp. now - timestamp < windowMs) requests
      in if maxRequests \<le> length requests then
           (let oldestRequest = Min (set requests);
                retry = Math_ceil_div (oldestRequest + windowMs - now) 1000
            in (\<lparr>allowed = False, retryAfter = Some retry\<rparr>, e))
         else
           (let requests = requests @ [now] in
            case kv_put (RATE_LIMIT_KV e) rateLimitKey requests
                   (Some (nat (Math_ceil_div windowMs 1000))) of
              Inl error \<Rightarrow> (\<lparr>allowed = True, retryAfter = None\<rparr>, e)
            | Inr kv \<Rightarrow>
                (\<lparr>allowed = True, retryAfter = None\<rparr>,
                 updateUserStats (e\<lparr>RATE_LIMIT_KV := kv\<rparr>) userId now_stats))))"

section \<open>The HTTP surface\<close>

text \<open>
  A request is its method, the path of its URL, its \<open>Authorization\<close> header (if any) and
  the text of its body. Every call of \<open>Date.now()\<close> while a request is served has a
  reading of its own.
\<close>

record request =
  req_method :: jsstring
  pathname :: jsstring
  authorization :: "jsstring option"
  req_body :: jsstring

record response =
  status :: int
  headers :: "(string \<times> jsstring) list"
  body :: "jsstring option"

record clock =
  t_verify :: int
  t_limit :: int
  t_stats :: int
  t_processed :: int
  t_id :: int
  t_token :: int
  t_init :: int
  t_expires :: int

definition corsHeaders :: "env \<Rightarrow> (string \<times> jsstring) list" where
  "corsHeaders e =
     [(''Access-Control-Allow-Origin'',
         (case ALLOWED_ORIGIN e of
            None \<Rightarrow> js ''*''
          | Some origin \<Rightarrow> if origin \<noteq> [] then origin else js ''*'')),
      (''Access-Control-Allow-Methods'', js ''GET, POST, OPTIONS''),
      (''Access-Control-Allow-Headers'', js ''Content-Type, Authorization''),
      (''Access-Control-Max-Age'', js ''86400'')]"

text \<open>
  \<open>new Response(JSON.stringify(v), {status, headers: {'Content-Type': 'application/json', ...}})\<close>
  for a status the worker chooses itself.
\<close>

definition json_response :: "int \<Rightarrow> jsval \<Rightarrow> (string \<times> jsstring) list \<Rightarrow> response" where
  "json_response st v hs =
     \<lparr>status = st, headers = (''Content-Type'', js ''application/json'') # hs,
      body = Some (JSON_stringify v)\<rparr>"

definition error_object :: "string \<Rightarrow> jsval" where
  "error_object msg = JObj [(js ''error'', JStr (js msg))]"

text \<open>
  \<open>new Response(body, {status, headers})\<close> for a status that comes from elsewhere: a
  \<open>RangeError\<close> outside 200..599, a \<open>TypeError\<close> for a body with a null-body status.
\<close>

definition new_Response :: "jsstring option \<Rightarrow> int \<Rightarrow> (string \<times> jsstring) list \<Rightarrow> builtin_error + response" where
  "new_Response b st hs =
     (if st < 200 \<or> 599 < st then Inl RangeError
      else if b \<noteq> None \<and> (st = 204 \<or> st = 205 \<or> st = 304) then Inl TypeError
      else Inr \<lparr>status = st, headers = hs, body = b\<rparr>)"

subsection \<open>Authentication\<close>

text \<open>
  \<open>authenticateUser\<close> calls \<open>verifyAnonymousToken(token, env)\<close>: the secret it passes is
  the \<open>env\<close> object itself, which \<open>TextEncoder.encode\<close> converts to a string, and an
  ordinary object converts to \<open>[object Object]\<close>.
\<close>

definition env_ToString :: "env \<Rightarrow> jsstring" where
  "env_ToString e = js ''[object Object]''"

datatype auth_result =
    AuthFailure string
  | AuthSuccess jsval jsval jsval

definition authenticateUser :: "platform \<Rightarrow> request \<Rightarrow> env \<Rightarrow> int \<Rightarrow> auth_result" where
  "authenticateUser pf request e now =
     (case authorization request of
        None \<Rightarrow> AuthFailure ''Missing or invalid authorization header''
      | Some authHeader \<Rightarrow>
          if authHeader = [] \<or> take 7 authHeader \<noteq> js ''Bearer ''
          then AuthFailure ''Missing or invalid authorization header''
          else
           (let token = drop 7 authHeader in
            case verifyAnonymousToken pf token (env_ToString e) now of
              Inl error \<Rightarrow> AuthFailure ''Invalid or expired token''
            | Inr payload \<Rightarrow>
               (case (get_prop payload ''userId'', get_prop payload ''iat'', get_prop payload ''exp'') of
                  (Inr userId, Inr issuedAt, Inr expiresAt) \<Rightarrow> AuthSuccess userId issuedAt expiresAt
                | other \<Rightarrow> AuthFailure ''Invalid or expired token'')))"

subsection \<open>The proxied call\<close>

text \<open>
  The external service answers a call (URL, API key, body text) with a status and a body
  text, or the call fails.
\<close>

type_synonym external_service = "jsstring \<Rightarrow> jsstring \<Rightarrow> jsstring \<Rightarrow> builtin_error + int \<times> jsstring"

text \<open>The own enumerable properties that \<open>{...data}\<close> copies.\<close>

fun spread :: "jsval \<Rightarrow> (jsstring \<times> jsval) list" where
  "spread (JObj ps) = ps"
| "spread (JArr xs) = zip (map (\<lambda>i. Number_toString (int i)) [0..<length xs]) xs"
| "spread (JStr s) = zip (map (\<lambda>i. Number_toString (int i)) [0..<length s]) (map (\<lambda>c. JStr [c]) s)"
| "spread v = []"

definition processApiResponse :: "platform \<Rightarrow> jsval \<Rightarrow> int \<Rightarrow> jsval" where
  "processApiResponse pf data now =
     JObj (AList.update (js ''processedAt'') (JStr (toISOString pf now)) (spread data))"

text \<open>The \<open>try\<close> block around the call of the external service.\<close>

definition callExternalApi :: "platform \<Rightarrow> external_service \<Rightarrow> env \<Rightarrow> jsval \<Rightarrow> (string \<times> jsstring) list \<Rightarrow> int \<Rightarrow> builtin_error + response" where
  "callExternalApi pf ext e requestBody cors now =
     (case ext (EXTERNAL_API_URL e) (EXTERNAL_API_KEY e) (JSON_stringify requestBody) of
        Inl error \<Rightarrow> Inl error
      | Inr (externalStatus, text) \<Rightarrow>
     (case JSON_parse pf text of
        Inl error \<Rightarrow> Inl error
      | Inr responseData \<Rightarrow>
     (let processedData = processApiResponse pf responseData now in
      new_Response (Some (JSON_stringify processedData)) externalStatus
        ((''Content-Type'', js ''application/json'') # cors))))"

text \<open>
  \<open>handleExternalApiRequest(request, env, corsHeaders)\<close>. Two exceptions can leave it: the
  \<open>TypeError\<close> of the template literal \<open>`rate_limit:${userId}`\<close>, which
  \<open>checkRateLimit\<close> evaluates before its \<open>try\<close>, when the \<open>userId\<close> of the
  payload has no string conversion; and the \<open>TypeError\<close> of
  \<open>retryAfter.toString()\<close> on a denial without a \<open>retryAfter\<close>.
\<close>

definition handleExternalApiRequest :: "platform \<Rightarrow> external_service \<Rightarrow> request \<Rightarrow> env \<Rightarrow> (string \<times> jsstring) list \<Rightarrow> clock \<Rightarrow> (js_error + response) \<times> env" where
  "handleExternalApiRequest pf ext request e cors clk =
     (if req_method request \<noteq> js ''POST''
      then (Inr (json_response 405 (error_object ''Method not allowed'') cors), e)
      else
       (case authenticateUser pf request e (t_verify clk) of
          AuthFailure msg \<Rightarrow> (Inr (json_response 401 (error_object msg) cors), e)
        | AuthSuccess userId issuedAt expiresAt \<Rightarrow>
       (case ToString userId of
          Inl error \<Rightarrow> (Inl (Builtin error), e)
        | Inr identity \<Rightarrow>
       (case checkRateLimit e identity (t_limit clk) (t_stats clk) of
          (rateLimitResult, e') \<Rightarrow>
            if \<not> allowed rateLimitResult then
              (case retryAfter rateLimitResult of
                 None \<Rightarrow> (Inl (Builtin TypeError), e')
               | Some retry \<Rightarrow>
                   (Inr (json_response 429
                           (JObj [(js ''error'', JStr (js ''Rate limit exceeded'')),
                                  (js ''retryAfter'', JNum retry)])
                           ((''Retry-After'', Number_toString retry) # cors)), e'))
            else
              (case JSON_parse pf (req_body request) of
                 Inl error \<Rightarrow>
                   (Inr (json_response 400 (error_object ''Invalid JSON in request body'') cors), e')
               | Inr requestBody \<Rightarrow>
                  (case callExternalApi pf ext e' requestBody cors (t_processed clk) of
                     Inl error \<Rightarrow>
                       (Inr (json_response 503 (error_object ''External service unavailable'') cors), e')
                   | Inr externalResponse \<Rightarrow> (Inr externalResponse, e')))))))"

subsection \<open>Issuing a token\<close>

definition hex_byte :: "byte \<Rightarrow> jsstring" where
  "hex_byte b = [hex_digit (unat b div 16), hex_digit (unat b mod 16)]"

text \<open>\<open>generateAnonymousUserId()\<close>, from its reading of the clock and its 16 random bytes.\<close>

definition generateAnonymousUserId :: "int \<Rightarrow> byte list \<Rightarrow> jsstring" where
  "generateAnonymousUserId now randomBytes =
     js ''anon_'' @ Number_toString now @ 95 # concat (map hex_byte randomBytes)"

definition handleTokenRequest :: "platform \<Rightarrow> request \<Rightarrow> env \<Rightarrow> (string \<times> jsstring) list \<Rightarrow> clock \<Rightarrow> byte list \<Rightarrow> response \<times> env" where
  "handleTokenRequest pf request e cors clk randomBytes =
     (if req_method request \<noteq> js ''POST''
      then (json_response 405 (error_object ''Method not allowed'') cors, e)
      else
       (let anonymousUserId = generateAnonymousUserId (t_id clk) randomBytes in
        case generateAnonymousToken pf anonymousUserId (JWT_SECRET e) (t_token clk) of
          Inl error \<Rightarrow> (json_response 500 (error_object ''Token generation failed'') cors, e)
        | Inr token \<Rightarrow>
           (let e' = initializeUserStats e anonymousUserId (t_init clk) in
            (json_response 200
               (JObj [(js ''token'', JStr token),
                      (js ''userId'', JStr anonymousUserId),
                      (js ''expiresAt'', JNum (t_expires clk + 30 * 24 * 60 * 60 * 1000)),
                      (js ''rateLimit'',
                         JObj [(js ''maxRequests'', JNum 100),
                               (js ''windowMs'', JNum (60 * 60 * 1000))])])
               cors, e'))))"

subsection \<open>The worker\<close>

definition fetch :: "platform \<Rightarrow> external_service \<Rightarrow> request \<Rightarrow> env \<Rightarrow> clock \<Rightarrow> byte list \<Rightarrow> response \<times> env" where
  "fetch pf ext request e clk randomBytes =
     (let cors = corsHeaders e in
      if req_method request = js ''OPTIONS''
      then (\<lparr>status = 200, headers = cors, body = None\<rparr>, e)
      else if pathname request = js ''/api/external-service''
      then
       (case handleExternalApiRequest pf ext request e cors clk of
          (Inl error, e') \<Rightarrow> (json_response 500 (error_object ''Internal Server Error'') cors, e')
        | (Inr r, e') \<Rightarrow> (r, e'))
      else if pathname request = js ''/api/token''
      then handleTokenRequest pf request e cors clk randomBytes
      else (\<lparr>status = 404, headers = cors, body = Some (js ''Not Found'')\<rparr>, e))"

section \<open>Observations used in the statements\<close>

text \<open>
  A token is malformed when it has fewer than three segments between dots, or one of its
  first three segments is empty.
\<close>

definition malformed :: "jsstring \<Rightarrow> bool" where
  "malformed token =
     (length (split_on 46 token) < 3 \<or> [] \<in> set (take 3 (split_on 46 token)))"

text \<open>The timestamps stored for an identity (none when its key is absent).\<close>

definition rate_limit_key :: "jsstring \<Rightarrow> jsstring" where
  "rate_limit_key userId = js ''rate_limit:'' @ userId"

definition stored_requests :: "env \<Rightarrow> jsstring \<Rightarrow> int list" where
  "stored_requests e userId =
     (case entries (RATE_LIMIT_KV e) (rate_limit_key userId) of
        None \<Rightarrow> []
      | Some (stored, ttl) \<Rightarrow> stored)"

text \<open>The stored timestamps that are still inside the window at \<open>now\<close>.\<close>

definition in_window :: "env \<Rightarrow> jsstring \<Rightarrow> int \<Rightarrow> int list" where
  "in_window e userId now = filter (\<lambda>timestamp. now - timestamp < windowMs) (stored_requests e userId)"

text \<open>
  Some operation of the store that \<open>checkRateLimit\<close> performs throws: the read of the
  rate-limit record; or, when that read succeeds and leaves room in the window, the write
  of the record; or, when that write succeeds too, the read or the write of the statistics
  inside \<open>updateUserStats\<close>. (A call that finds the window full performs the read only.)
\<close>

definition store_throws :: "env \<Rightarrow> jsstring \<Rightarrow> int \<Rightarrow> bool" where
  "store_throws e userId now =
     (get_fails (RATE_LIMIT_KV e)
      \<or> (length (in_window e userId now) < maxRequests
          \<and> (put_fails (RATE_LIMIT_KV e)
              \<or> get_fails (USER_STATS_KV e)
              \<or> put_fails (USER_STATS_KV e))))"

text \<open>
  Consecutive calls of \<open>checkRateLimit\<close> for one identity, each with its two readings of
  the clock: the results in order, and the environment after the last call.
\<close>

fun checkRateLimit_calls :: "env \<Rightarrow> jsstring \<Rightarrow> (int \<times> int) list \<Rightarrow> rate_limit_result list \<times> env" where
  "checkRateLimit_calls e userId [] = ([], e)"
| "checkRateLimit_calls e userId ((now, now_stats) # later) =
     (case checkRateLimit e userId now now_stats of
        (r, e') \<Rightarrow>
          (case checkRateLimit_calls e' userId later of
             (rs, e'') \<Rightarrow> (r # rs, e'')))"

text \<open>
  The statistics stored for an identity; the record an update starts from (the stored one,
  or the initial record when the key is absent); and the count of a date in a record
  (\<open>0\<close> for a date without a bucket).
\<close>

definition stats_key :: "jsstring \<Rightarrow> jsstring" where
  "stats_key userId = js ''user_stats:'' @ userId"

definition stored_stats :: "env \<Rightarrow> jsstring \<Rightarrow> user_stats option" where
  "stored_stats e userId = map_option fst (entries (USER_STATS_KV e) (stats_key userId))"

definition prior_stats :: "env \<Rightarrow> jsstring \<Rightarrow> int \<Rightarrow> user_stats" where
  "prior_stats e userId now =
     (case stored_stats e userId of
        Some s \<Rightarrow> s
      | None \<Rightarrow> \<lparr>createdAt = now, totalRequests = 0, lastRequestAt = None, dailyRequests = []\<rparr>)"

definition count_on :: "user_stats \<Rightarrow> int \<Rightarrow> int" where
  "count_on stats date = (case map_of (dailyRequests stats) date of None \<Rightarrow> 0 | Some c \<Rightarrow> c)"

text \<open>The record of the identity is empty: absent, or without any request counted.\<close>

definition no_usage :: "env \<Rightarrow> jsstring \<Rightarrow> bool" where
  "no_usage e userId =
     (case stored_stats e userId of
        None \<Rightarrow> True
      | Some s \<Rightarrow> totalRequests s = 0 \<and> dailyRequests s = [])"

text \<open>Consecutive calls of \<open>updateUserStats\<close> for one identity, one for each reading.\<close>

definition updateUserStats_calls :: "env \<Rightarrow> jsstring \<Rightarrow> int list \<Rightarrow> env" where
  "updateUserStats_calls e userId readings =
     fold (\<lambda>now e'. updateUserStats e' userId now) readings e"

text \<open>The retention of the daily buckets: thirty days, in milliseconds.\<close>

definition retentionMs :: int where
  "retentionMs = 30 * 24 * 60 * 60 * 1000"

text \<open>The sextets of a byte sequence: what \<open>b64_encode\<close> writes before the padding.\<close>

fun sextets :: "nat list \<Rightarrow> nat list" where
  "sextets [] = []"
| "sextets [a] = [a div 4, a mod 4 * 16]"
| "sextets [a, b] = [a div 4, a mod 4 * 16 + b div 16, b mod 16 * 4]"
| "sextets (a # b # c # rest) =
     a div 4 # (a mod 4 * 16 + b div 16) # (b mod 16 * 4 + c div 64) # c mod 64 # sextets rest"

section \<open>A platform for concrete runs\<close>

text \<open>
  To run the worker on concrete inputs the platform is instantiated with a reader for JSON
  documents whose numbers are integers, a checksum in the place of HMAC-SHA-256 and a key
  import that rejects the empty key. The theorems below hold for every platform; this one
  only supplies examples.
\<close>

definition is_digit :: "nat \<Rightarrow> bool" where
  "is_digit c = (48 \<le> c \<and> c \<le> 57)"

fun skip_ws :: "jsstring \<Rightarrow> jsstring" where
  "skip_ws [] = []"
| "skip_ws (c # cs) = (if c = 32 \<or> c = 9 \<or> c = 10 \<or> c = 13 then skip_ws cs else c # cs)"

definition hex_value :: "nat \<Rightarrow> nat option" where
  "hex_value c =
     (if 48 \<le> c \<and> c \<le> 57 then Some (c - 48)
      else if 97 \<le> c \<and> c \<le> 102 then Some (c - 87)
      else if 65 \<le> c \<and> c \<le> 70 then Some (c - 55)
      else None)"

definition unescape :: "nat \<Rightarrow> nat option" where
  "unescape c =
     (if c = 34 \<or> c = 92 \<or> c = 47 then Some c
      else if c = 98 then Some 8
      else if c = 102 then Some 12
      else if c = 110 then Some 10
      else if c = 114 then Some 13
      else if c = 116 then Some 9
      else None)"

text \<open>A string literal after its opening quote: the string and the rest of the input.\<close>

fun read_string :: "jsstring \<Rightarrow> (jsstring \<times> jsstring) option" where
  "read_string [] = None"
| "read_string [c] = (if c = 34 then Some ([], []) else None)"
| "read_string (c # e # cs) =
     (if c = 34 then Some ([], e # cs)
      else if c < 32 then None
      else if c \<noteq> 92 then
        (case read_string (e # cs) of
           None \<Rightarrow> None
         | Some (s, rest) \<Rightarrow> Some (c # s, rest))
      else if e = 117 then
        (case cs of
           h1 # h2 # h3 # h4 # cs' \<Rightarrow>
             (case (hex_value h1, hex_value h2, hex_value h3, hex_value h4) of
                (Some a, Some b, Some c', Some d) \<Rightarrow>
                  (case read_string cs' of
                     None \<Rightarrow> None
                   | Some (s, rest) \<Rightarrow> Some ((a * 4096 + b * 256 + c' * 16 + d) # s, rest))
              | other \<Rightarrow> None)
         | short \<Rightarrow> None)
      else
        (case unescape e of
           None \<Rightarrow> None
         | Some u \<Rightarrow>
             (case read_string cs of
                None \<Rightarrow> None
              | Some (s, rest) \<Rightarrow> Some (u # s, rest))))"

fun read_digits :: "nat \<Rightarrow> jsstring \<Rightarrow> nat \<times> jsstring" where
  "read_digits acc [] = (acc, [])"
| "read_digits acc (c # cs) =
     (if is_digit c then read_digits (acc * 10 + (c - 48)) cs else (acc, c # cs))"

definition read_natural :: "jsstring \<Rightarrow> (nat \<times> jsstring) option" where
  "read_natural s =
     (case s of
        [] \<Rightarrow> None
      | c # cs \<Rightarrow>
          if c = 48 then Some (0, cs)
          else if is_digit c then Some (read_digits (c - 48) cs)
          else None)"

text \<open>An integer; a fraction or an exponent after it is outside what this reader reads.\<close>

definition read_number :: "jsstring \<Rightarrow> (int \<times> jsstring) option" where
  "read_number s =
     (case (case s of
              [] \<Rightarrow> None
            | c # cs \<Rightarrow>
                if c = 45 then map_option (\<lambda>(n, rest). (- int n, rest)) (read_natural cs)
                else map_option (\<lambda>(n, rest). (int n, rest)) (read_natural s)) of
        None \<Rightarrow> None
      | Some (n, rest) \<Rightarrow>
          (case rest of
             [] \<Rightarrow> Some (n, rest)
           | c # cs \<Rightarrow> if c = 46 \<or> c = 101 \<or> c = 69 then None else Some (n, rest)))"

text \<open>
  A value, the elements of an array after \<open>[\<close> and the members of an object after
  \<open>{\<close>, each with the rest of the input. The first argument bounds the depth of the
  recursion; the length of the input is enough.
\<close>

fun read_value :: "nat \<Rightarrow> jsstring \<Rightarrow> (jsval \<times> jsstring) option"
  and read_elements :: "nat \<Rightarrow> jsstring \<Rightarrow> (jsval list \<times> jsstring) option"
  and read_members :: "nat \<Rightarrow> jsstring \<Rightarrow> ((jsstring \<times> jsval) list \<times> jsstring) option" where
  "read_value fuel s =
     (if fuel = 0 then None
      else
       (case s of
          [] \<Rightarrow> None
        | c # cs \<Rightarrow>
            if c = 34 then map_option (\<lambda>(str, rest). (JStr str, rest)) (read_string cs)
            else if c = 91 then
              (case skip_ws cs of
                 [] \<Rightarrow> None
               | d # ds \<Rightarrow>
                   if d = 93 then Some (JArr [], ds)
                   else map_option (\<lambda>(xs, rest). (JArr xs, rest)) (read_elements (fuel - 1) (d # ds)))
            else if c = 123 then
              (case skip_ws cs of
                 [] \<Rightarrow> None
               | d # ds \<Rightarrow>
                   if d = 125 then Some (JObj [], ds)
                   else map_option
                          (\<lambda>(ps, rest). (JObj (foldl (\<lambda>acc (k, v). AList.update k v acc) [] ps), rest))
                          (read_members (fuel - 1) (d # ds)))
            else if take 4 s = js ''true'' then Some (JBool True, drop 4 s)
            else if take 5 s = js ''false'' then Some (JBool False, drop 5 s)
            else if take 4 s = js ''null'' then Some (JNull, drop 4 s)
            else map_option (\<lambda>(n, rest). (JNum n, rest)) (read_number s)))"
| "read_elements fuel s =
     (if fuel = 0 then None
      else
       (case read_value (fuel - 1) s of
          None \<Rightarrow> None
        | Some (x, rest) \<Rightarrow>
           (case skip_ws rest of
              [] \<Rightarrow> None
            | d # ds \<Rightarrow>
                if d = 93 then Some ([x], ds)
                else if d = 44 then
                  map_option (\<lambda>(xs, rest'). (x # xs, rest')) (read_elements (fuel - 1) (skip_ws ds))
                else None)))"
| "read_members fuel s =
     (if fuel = 0 then None
      else
       (case s of
          [] \<Rightarrow> None
        | q # qs \<Rightarrow>
            if q \<noteq> 34 then None
            else
             (case read_string qs of
                None \<Rightarrow> None
              | Some (k, rest) \<Rightarrow>
                 (case skip_ws rest of
                    [] \<Rightarrow> None
                  | colon # after \<Rightarrow>
                      if colon \<noteq> 58 then None
                      else
                       (case read_value (fuel - 1) (skip_ws after) of
                          None \<Rightarrow> None
                        | Some (v, rest') \<Rightarrow>
                           (case skip_ws rest' of
                              [] \<Rightarrow> None
                            | d # ds \<Rightarrow>
                                if d = 125 then Some ([(k, v)], ds)
                                else if d = 44 then
                                  map_option (\<lambda>(ps, rest''). ((k, v) # ps, rest''))
                                    (read_members (fuel - 1) (skip_ws ds))
                                else None))))))"

declare read_value.simps [simp del] read_elements.simps [simp del] read_members.simps [simp del]

definition read_json :: "jsstring \<Rightarrow> builtin_error + jsval" where
  "read_json s =
     (case read_value (length s) (skip_ws s) of
        None \<Rightarrow> Inl SyntaxError
      | Some (v, rest) \<Rightarrow> if skip_ws rest = [] then Inr v else Inl SyntaxError)"

definition checksum :: "byte list \<Rightarrow> jsstring \<Rightarrow> byte list" where
  "checksum key data =
     [of_nat (sum_list (map unat key)), of_nat (sum_list data), of_nat (length data)]"

definition test_platform :: platform where
  "test_platform =
     \<lparr>importKey = (\<lambda>secret. if secret = [] then Inl DataError else Inr (map of_nat secret)),
      HMAC_SHA256 = checksum,
      JSON_parse = read_json,
      StringToNumber_lt = (\<lambda>s now. False),
      toISOString = (\<lambda>ms. Number_toString ms)\<rparr>"

definition test_kv :: "'v kv_namespace" where
  "test_kv = \<lparr>entries = Map.empty, get_fails = False, put_fails = False\<rparr>"

definition test_env :: env where
  "test_env =
     \<lparr>ALLOWED_ORIGIN = None, JWT_SECRET = js ''secret'',
      EXTERNAL_API_URL = js ''https://api.external-service.com/v1/data'',
      EXTERNAL_API_KEY = js ''key'',
      RATE_LIMIT_KV = test_kv, USER_STATS_KV = test_kv\<rparr>"

definition test_service :: external_service where
  "test_service url key text = Inr (200, text)"

definition test_clock :: clock where
  "test_clock =
     \<lparr>t_verify = 4500000, t_limit = 4500000, t_stats = 4500000, t_processed = 4500000,
      t_id = 1000000, t_token = 1000000, t_init = 1000000, t_expires = 1000000\<rparr>"

text \<open>
  The token that \<open>signJWT\<close> issues on the test platform for the identity \<open>anon_1_ab\<close>,
  \<open>iat = 1000\<close>, \<open>exp = 4600\<close> and the secret \<open>k\<close>.
\<close>

definition example_token :: jsstring where
  "example_token =
     js ''eyJhbGciOiJIUzI1NiIsInR5cCI6IkpXVCJ9.eyJ1c2VySWQiOiJhbm9uXzFfYWIiLCJpYXQiOjEwMDAsImV4cCI6NDYwMCwidHlwZSI6ImFub255bW91cyJ9.a255''"

text \<open>The test environment with a hundred requests of \<open>anon_1_ab\<close> stored at time 0.\<close>

definition full_window_env :: env where
  "full_window_env =
     test_env\<lparr>RATE_LIMIT_KV := test_kv\<lparr>entries :=
       [rate_limit_key (js ''anon_1_ab'') \<mapsto> (replicate 100 0, Some 3600)]\<rparr>\<rparr>"

text \<open>
  The token that \<open>signJWT\<close> issues on the test platform for the payload
  \<open>{"userId":"anon_1_ab","type":"anonymous"}\<close>, which has no \<open>exp\<close>, and the secret
  \<open>k\<close>.
\<close>

definition unexpiring_token :: jsstring where
  "unexpiring_token = js ''eyJhbGciOiJIUzI1NiIsInR5cCI6IkpXVCJ9.eyJ1c2VySWQiOiJhbm9uXzFfYWIiLCJ0eXBlIjoiYW5vbnltb3VzIn0=.a7Bd''"

text \<open>
  A \<open>POST\<close> to \<open>/api/token\<close>, the sixteen random bytes that
  \<open>generateAnonymousUserId\<close> draws while it is served, and the token that the worker
  answers it with on the test platform: the identity it generates, and the token for that
  identity, \<open>iat = 1000\<close>, \<open>exp = 2593000\<close> and the secret of the test environment.
\<close>

definition token_request :: request where
  "token_request =
     \<lparr>req_method = js ''POST'', pathname = js ''/api/token'', authorization = None,
      req_body = []\<rparr>"

definition test_random :: "byte list" where
  "test_random = [0, 1, 2, 3, 4, 5, 6, 7, 8, 9, 10, 11, 12, 13, 14, 15]"

definition issued_identity :: jsstring where
  "issued_identity = js ''anon_1000000_000102030405060708090a0b0c0d0e0f''"

definition issued_token :: jsstring where
  "issued_token = js ''eyJhbGciOiJIUzI1NiIsInR5cCI6IkpXVCJ9.eyJ1c2VySWQiOiJhbm9uXzEwMDAwMDBfMDAwMTAyMDMwNDA1MDYwNzA4MDkwYTBiMGMwZDBlMGYiLCJpYXQiOjEwMDAsImV4cCI6MjU5MzAwMCwidHlwZSI6ImFub255bW91cyJ9.hlyt''"

text \<open>
  A request to the proxied endpoint that carries the issued token, with a body that is not
  JSON.
\<close>

definition issued_request :: request where
  "issued_request =
     \<lparr>req_method = js ''POST'', pathname = js ''/api/external-service'',
      authorization = Some (js ''Bearer '' @ issued_token), req_body = js ''not json''\<rparr>"

section \<open>Properties\<close>

subsection \<open>The shape of a token\<close>

text \<open>
  The guard of \<open>verifyJWT\<close> on the destructured segments holds exactly when the token
  has fewer than three segments or one of its first three is empty.
\<close>

lemma malformed_guard:
  "(case split_on 46 token of
      h # p # s # ignored \<Rightarrow> h = [] \<or> p = [] \<or> s = []
    | fewer \<Rightarrow> True) \<longleftrightarrow> malformed token"
  by (auto simp: malformed_def split: list.splits)

text \<open>
  \<open>verifyJWT\<close> fails with the malformed-token error
  (\<open>Token verification failed: Invalid token format\<close>) exactly when the token has fewer
  than three segments or one of its first three segments is empty.
\<close>

lemma verifyJWT_malformed_iff:
  "verifyJWT pf token secret now = Inl (TokenVerificationFailed (Error ''Invalid token format''))
   \<longleftrightarrow> malformed token"
  unfolding malformed_guard [symmetric]
  by (auto simp: verifyJWT_def verifyJWT_try_def Let_def
           split: list.splits sum.splits if_splits)

lemma verifyJWT_malformed_example:
  "verifyJWT test_platform (js ''a..c'') (js ''k'') 0 =
     Inl (TokenVerificationFailed (Error ''Invalid token format''))"
  using verifyJWT_malformed_iff [of test_platform "js ''a..c''" "js ''k''" 0]
  by (simp add: malformed_def js_def)

text \<open>
  C4. A token that does not split on \<open>.\<close> into exactly three non-empty segments is to fail
  with the malformed-token error, a valid token with \<open>.suffix\<close> appended among them. The
  guard \<open>!encodedHeader || !encodedPayload || !encodedSignature\<close> of \<open>verifyJWT\<close> tests
  the three segments that the destructuring of \<open>token.split('.')\<close> has taken and never
  sees a fourth: the token issued for \<open>anon_1_ab\<close> with \<open>.suffix\<close> appended has four
  segments, and \<open>verifyJWT\<close> returns its payload.
\<close>

theorem verifyJWT_extra_segment_accepted:
  "signJWT test_platform (anonymous_payload (JStr (js ''anon_1_ab'')) 1000 4600) (js ''k'')
     = Inr example_token
   \<and> length (split_on 46 (example_token @ js ''.suffix'')) = 4
   \<and> verifyJWT test_platform (example_token @ js ''.suffix'') (js ''k'') 4500000
     = Inr (anonymous_payload (JStr (js ''anon_1_ab'')) 1000 4600)"
proof -
  have a: "signJWT test_platform (anonymous_payload (JStr (js ''anon_1_ab'')) 1000 4600) (js ''k'')
     = Inr example_token"
    by (simp add: signJWT_def anonymous_payload_def jwt_header_def js_def btoa_def
          QuoteJSONString_def quote_unit_def is_high_surrogate_def is_low_surrogate_def
          Number_toString_def nat_digits.simps test_platform_def checksum_def b64_char_def
          example_token_def)
  have b: "length (split_on 46 (example_token @ js ''.suffix'')) = 4"
    by (simp add: example_token_def js_def)
  have c: "verifyJWT test_platform (example_token @ js ''.suffix'') (js ''k'') 4500000
     = Inr (anonymous_payload (JStr (js ''anon_1_ab'')) 1000 4600)"
    by (simp add: verifyJWT_def verifyJWT_try_def anonymous_payload_def js_def atob_def
          b64_index_def is_ascii_whitespace_def test_platform_def checksum_def read_json_def
          read_value.simps read_members.simps read_elements.simps read_number_def
          read_natural_def is_digit_def hex_value_def unescape_def Let_def example_token_def)
  from a b c show ?thesis by simp
qed

subsection \<open>Status codes\<close>

lemma authenticateUser_malformed:
  assumes "authorization request = Some (js ''Bearer '' @ token)" and "malformed token"
  shows "authenticateUser pf request e now = AuthFailure ''Invalid or expired token''"
proof -
  have "verifyJWT pf token secret now =
          Inl (TokenVerificationFailed (Error ''Invalid token format''))" for secret
    using assms(2) unfolding malformed_guard [symmetric]
    by (auto simp: verifyJWT_def verifyJWT_try_def Let_def
             split: list.splits sum.splits if_splits)
  then have "verifyAnonymousToken pf token secret now = Inl (Error ''Invalid anonymous token'')"
    for secret
    by (simp add: verifyAnonymousToken_def)
  then show ?thesis
    using assms(1) by (simp add: authenticateUser_def js_def)
qed

text \<open>
  C5 (as the code has it). A \<open>POST /api/external-service\<close> whose bearer token is malformed
  is answered with status 401 and the error \<open>Invalid or expired token\<close>, like every other
  credential that does not verify; the stores are not touched.
\<close>

theorem malformed_bearer_unauthorized:
  assumes "req_method request = js ''POST''"
      and "pathname request = js ''/api/external-service''"
      and "authorization request = Some (js ''Bearer '' @ token)"
      and "malformed token"
  shows "fetch pf ext request e clk rnd =
           (json_response 401 (error_object ''Invalid or expired token'') (corsHeaders e), e)
         \<and> status (fst (fetch pf ext request e clk rnd)) = 401"
  using assms authenticateUser_malformed [OF assms(3,4), of pf e "t_verify clk"]
  by (simp add: fetch_def handleExternalApiRequest_def js_def Let_def json_response_def)

theorem malformed_bearer_unauthorized_witness:
  "malformed (js ''a.b'')
   \<and> status (fst (fetch test_platform test_service
        \<lparr>req_method = js ''POST'', pathname = js ''/api/external-service'',
         authorization = Some (js ''Bearer '' @ js ''a.b''), req_body = js ''{}''\<rparr>
        test_env test_clock [])) = 401"
proof -
  have m: "malformed (js ''a.b'')"
    by (simp add: malformed_def js_def)
  show ?thesis
    using m malformed_bearer_unauthorized [of
        "\<lparr>req_method = js ''POST'', pathname = js ''/api/external-service'',
          authorization = Some (js ''Bearer '' @ js ''a.b''), req_body = js ''{}''\<rparr>"
        "js ''a.b''" test_platform test_service test_env test_clock "[]"]
    by (simp add: json_response_def)
qed

text \<open>
  The claim as stated fails: the bearer token \<open>abc\<close> has one segment, and the answer is 401,
  not 400.
\<close>

theorem malformed_bearer_counterexample:
  "malformed (js ''abc'')
   \<and> status (fst (fetch test_platform test_service
        \<lparr>req_method = js ''POST'', pathname = js ''/api/external-service'',
         authorization = Some (js ''Bearer abc''), req_body = js ''{}''\<rparr>
        test_env test_clock [])) = 401
   \<and> (401 :: int) \<noteq> 400"
  by (simp add: malformed_def js_def fetch_def handleExternalApiRequest_def authenticateUser_def
        verifyAnonymousToken_def verifyJWT_def verifyJWT_try_def json_response_def Let_def)

text \<open>
  C6 (as the code has it). On the path \<open>/api/token\<close> every method other than \<open>POST\<close> is
  answered with 405, except \<open>OPTIONS\<close>: the preflight guard of \<open>fetch\<close> answers it with
  200 before the path is looked at.
\<close>

theorem token_path_other_method:
  assumes "pathname request = js ''/api/token''"
      and "req_method request \<noteq> js ''POST''"
  shows "status (fst (fetch pf ext request e clk rnd)) =
           (if req_method request = js ''OPTIONS'' then 200 else 405)"
  using assms
  by (simp add: fetch_def handleTokenRequest_def json_response_def js_def Let_def)

theorem token_path_other_method_witness:
  "status (fst (fetch test_platform test_service
      \<lparr>req_method = js ''GET'', pathname = js ''/api/token'', authorization = None,
       req_body = []\<rparr> test_env test_clock [])) = 405"
  using token_path_other_method [of
      "\<lparr>req_method = js ''GET'', pathname = js ''/api/token'', authorization = None,
        req_body = []\<rparr>" test_platform test_service test_env test_clock "[]"]
  by (simp add: js_def)

theorem token_path_options_counterexample:
  "js ''OPTIONS'' \<noteq> js ''POST''
   \<and> status (fst (fetch test_platform test_service
      \<lparr>req_method = js ''OPTIONS'', pathname = js ''/api/token'', authorization = None,
       req_body = []\<rparr> test_env test_clock [])) = 200"
  by (simp add: fetch_def js_def)


subsection \<open>The rate limiter, one call\<close>

lemma Math_ceil_div_ceiling:
  "Math_ceil_div a 1000 = \<lceil>(of_int a :: rat) / 1000\<rceil>"
proof -
  have "\<lceil>(of_int a :: rat) / of_int 1000\<rceil> = - \<lfloor>(of_int (- a) :: rat) / of_int 1000\<rfloor>"
    by (simp add: ceiling_def)
  also have "\<dots> = - ((- a) div 1000)"
    by (simp only: floor_divide_of_int_eq)
  finally show ?thesis by (simp add: Math_ceil_div_def)
qed

text \<open>The four ways through \<open>checkRateLimit\<close>.\<close>

lemma checkRateLimit_cases:
  "checkRateLimit e userId now now_stats =
     (if get_fails (RATE_LIMIT_KV e) then (\<lparr>allowed = True, retryAfter = None\<rparr>, e)
      else if maxRequests \<le> length (in_window e userId now) then
        (\<lparr>allowed = False,
          retryAfter = Some (Math_ceil_div (Min (set (in_window e userId now)) + windowMs - now) 1000)\<rparr>, e)
      else if put_fails (RATE_LIMIT_KV e) then (\<lparr>allowed = True, retryAfter = None\<rparr>, e)
      else (\<lparr>allowed = True, retryAfter = None\<rparr>,
            updateUserStats
              (e\<lparr>RATE_LIMIT_KV := (RATE_LIMIT_KV e)\<lparr>entries := (entries (RATE_LIMIT_KV e))
                   (rate_limit_key userId \<mapsto> (in_window e userId now @ [now], Some 3600))\<rparr>\<rparr>)
              userId now_stats))"
proof -
  have k: "js ''rate_limit:'' @ userId = rate_limit_key userId"
    by (simp add: rate_limit_key_def)
  have n: "nat (Math_ceil_div windowMs 1000) = 3600"
    by (simp add: Math_ceil_div_def windowMs_def)
  show ?thesis
    unfolding checkRateLimit_def k n
    by (auto simp: Let_def kv_get_def in_window_def stored_requests_def kv_put_def
             split: option.splits)
qed

lemma retry_at_least_one:
  assumes "maxRequests \<le> length (in_window e userId now)"
  shows "1 \<le> Math_ceil_div (Min (set (in_window e userId now)) + windowMs - now) 1000"
proof -
  let ?rem = "in_window e userId now"
  from assms have "?rem \<noteq> []" by (auto simp: maxRequests_def)
  then have "Min (set ?rem) \<in> set ?rem" by (intro Min_in) auto
  then have "now - Min (set ?rem) < windowMs" by (simp add: in_window_def)
  then have "0 < Min (set ?rem) + windowMs - now" by simp
  then show ?thesis by (simp add: Math_ceil_div_def)
qed

text \<open>
  C3. Whenever \<open>checkRateLimit\<close> denies, the read of the record succeeded, at least
  \<open>maxRequests\<close> stored timestamps are inside the window, and \<open>retryAfter\<close> is the
  ceiling of \<open>(min(remaining) + windowMs - now) / 1000\<close> over the exact millisecond
  integers, which is at least 1.
\<close>

theorem denied_retryAfter:
  assumes "\<not> allowed (fst (checkRateLimit e userId now now_stats))"
  shows "\<not> get_fails (RATE_LIMIT_KV e)
       \<and> maxRequests \<le> length (in_window e userId now)
       \<and> retryAfter (fst (checkRateLimit e userId now now_stats)) =
            Some \<lceil>(of_int (Min (set (in_window e userId now)) + windowMs - now) :: rat) / 1000\<rceil>
       \<and> 1 \<le> \<lceil>(of_int (Min (set (in_window e userId now)) + windowMs - now) :: rat) / 1000\<rceil>"
proof -
  from assms have g: "\<not> get_fails (RATE_LIMIT_KV e)"
    and full: "maxRequests \<le> length (in_window e userId now)"
    by (auto simp: checkRateLimit_cases split: if_splits)
  show ?thesis
    using g full retry_at_least_one [OF full]
    by (simp add: checkRateLimit_cases Math_ceil_div_ceiling)
qed

lemma in_window_full:
  "in_window full_window_env (js ''anon_1_ab'') 1000 = replicate 100 0"
  by (simp add: in_window_def stored_requests_def full_window_env_def test_env_def test_kv_def
        windowMs_def)

theorem denied_retryAfter_witness:
  "\<not> allowed (fst (checkRateLimit full_window_env (js ''anon_1_ab'') 1000 1000))
   \<and> retryAfter (fst (checkRateLimit full_window_env (js ''anon_1_ab'') 1000 1000))
       = Some 3599"
proof -
  have g: "\<not> get_fails (RATE_LIMIT_KV full_window_env)"
    by (simp add: full_window_env_def test_env_def test_kv_def)
  have d: "\<not> allowed (fst (checkRateLimit full_window_env (js ''anon_1_ab'') 1000 1000))"
    by (simp add: checkRateLimit_cases in_window_full maxRequests_def g)
  show ?thesis
    using d denied_retryAfter [OF d]
    by (simp add: in_window_full windowMs_def)
qed

text \<open>
  C7. If an operation of the store that \<open>checkRateLimit\<close> performs throws, the call
  returns \<open>{ allowed: true }\<close>: it neither denies nor lets the error out.
\<close>

theorem checkRateLimit_fails_open:
  assumes "store_throws e userId now"
  shows "fst (checkRateLimit e userId now now_stats) = \<lparr>allowed = True, retryAfter = None\<rparr>"
  using assms by (auto simp: checkRateLimit_cases store_throws_def)

theorem checkRateLimit_fails_open_witness:
  "store_throws (test_env\<lparr>RATE_LIMIT_KV := test_kv\<lparr>put_fails := True\<rparr>\<rparr>) (js ''anon_1_ab'') 1000
   \<and> fst (checkRateLimit (test_env\<lparr>RATE_LIMIT_KV := test_kv\<lparr>put_fails := True\<rparr>\<rparr>)
           (js ''anon_1_ab'') 1000 1000) = \<lparr>allowed = True, retryAfter = None\<rparr>"
proof -
  have t: "store_throws (test_env\<lparr>RATE_LIMIT_KV := test_kv\<lparr>put_fails := True\<rparr>\<rparr>)
             (js ''anon_1_ab'') 1000"
    by (simp add: store_throws_def in_window_def stored_requests_def test_env_def test_kv_def
          maxRequests_def)
  show ?thesis
    using t checkRateLimit_fails_open [OF t] by simp
qed


subsection \<open>A payload that never expires\<close>

text \<open>
  C9. A token whose first three segments are not empty, whose signature verifies under the
  secret, whose payload parses to a value with a falsy \<open>exp\<close> (absent, 0, \<open>null\<close>,
  \<open>false\<close> or the empty string) and with \<open>type\<close> equal to \<open>anonymous\<close>, is accepted
  by \<open>verifyAnonymousToken\<close> at every reading \<open>now\<close> of the clock: the expiry test is
  skipped.
\<close>

theorem verify_without_exp:
  assumes "split_on 46 token = h # p # s # ignored"
      and "h \<noteq> []" and "p \<noteq> []" and "s \<noteq> []"
      and "importKey pf secret = Inr key"
      and "atob s = Inr sg"
      and "HMAC_SHA256 pf key (h @ 46 # p) = map of_nat sg"
      and "atob p = Inr text"
      and "JSON_parse pf text = Inr payload"
      and "get_prop payload ''exp'' = Inr e"
      and "\<not> truthy e"
      and "get_prop payload ''type'' = Inr (JStr (js ''anonymous''))"
  shows "verifyAnonymousToken pf token secret now = Inr payload"
  using assms
  by (simp add: verifyAnonymousToken_def verifyJWT_def verifyJWT_try_def Let_def)

theorem verify_without_exp_witness:
  "verifyAnonymousToken test_platform unexpiring_token (js ''k'') 99999999999999999 =
     Inr (JObj [(js ''userId'', JStr (js ''anon_1_ab'')), (js ''type'', JStr (js ''anonymous''))])"
proof -
  let ?h = "js ''eyJhbGciOiJIUzI1NiIsInR5cCI6IkpXVCJ9''"
  let ?p = "js ''eyJ1c2VySWQiOiJhbm9uXzFfYWIiLCJ0eXBlIjoiYW5vbnltb3VzIn0=''"
  let ?s = "js ''a7Bd''"
  let ?payload = "JObj [(js ''userId'', JStr (js ''anon_1_ab'')), (js ''type'', JStr (js ''anonymous''))]"
  have 1: "split_on 46 unexpiring_token = ?h # ?p # ?s # []"
    by (simp add: unexpiring_token_def js_def)
  have 2: "?h \<noteq> []" "?p \<noteq> []" "?s \<noteq> []"
    by (simp_all add: js_def)
  have 3: "importKey test_platform (js ''k'') = Inr [107]"
    by (simp add: test_platform_def js_def)
  have 4: "atob ?s = Inr [107, 176 , 93]"
    by (simp add: atob_def js_def b64_index_def is_ascii_whitespace_def)
  have 5: "HMAC_SHA256 test_platform [107] (?h @ 46 # ?p) = map of_nat [107, 176 , 93]"
    by (simp add: test_platform_def checksum_def js_def)
  have 6: "atob ?p = Inr (JSON_stringify ?payload)"
    by (simp add: atob_def js_def b64_index_def is_ascii_whitespace_def QuoteJSONString_def
          quote_unit_def is_high_surrogate_def is_low_surrogate_def)
  have 7: "JSON_parse test_platform (JSON_stringify ?payload) = Inr ?payload"
    by (simp add: test_platform_def read_json_def js_def QuoteJSONString_def
          quote_unit_def is_high_surrogate_def is_low_surrogate_def
          read_value.simps read_members.simps read_elements.simps read_number_def
          read_natural_def is_digit_def hex_value_def unescape_def)
  have 8: "get_prop ?payload ''exp'' = Inr JUndefined"
    by (simp add: js_def)
  have 9: "\<not> truthy JUndefined" by simp
  have 10: "get_prop ?payload ''type'' = Inr (JStr (js ''anonymous''))"
    by (simp add: js_def)
  show ?thesis
    by (rule verify_without_exp [OF 1 2 3 4 5 6 7 8 9 10])
qed


subsection \<open>The rate limiter, a hundred calls\<close>

lemma updateUserStats_RATE_LIMIT_KV [simp]:
  "RATE_LIMIT_KV (updateUserStats e userId now) = RATE_LIMIT_KV e"
  by (simp add: updateUserStats_def Let_def split: sum.splits)

lemma stored_requests_updateUserStats [simp]:
  "stored_requests (updateUserStats e userId now) u = stored_requests e u"
  by (simp add: stored_requests_def)

lemma checkRateLimit_admits:
  assumes "\<not> get_fails (RATE_LIMIT_KV e)" and "\<not> put_fails (RATE_LIMIT_KV e)"
      and "length (in_window e userId now) < maxRequests"
  shows "allowed (fst (checkRateLimit e userId now now_stats))"
    and "stored_requests (snd (checkRateLimit e userId now now_stats)) userId =
           in_window e userId now @ [now]"
    and "\<not> get_fails (RATE_LIMIT_KV (snd (checkRateLimit e userId now now_stats)))"
    and "\<not> put_fails (RATE_LIMIT_KV (snd (checkRateLimit e userId now now_stats)))"
  using assms by (simp_all add: checkRateLimit_cases stored_requests_def)

lemma in_window_all:
  assumes "\<forall>a\<in>set (stored_requests e userId). now - a < windowMs"
  shows "in_window e userId now = stored_requests e userId"
  using assms by (simp add: in_window_def)

lemma calls_admitted:
  assumes "\<not> get_fails (RATE_LIMIT_KV e)" and "\<not> put_fails (RATE_LIMIT_KV e)"
      and "length (stored_requests e userId) + length calls \<le> maxRequests"
      and "\<forall>a\<in>set (stored_requests e userId) \<union> fst ` set calls. \<forall>b\<in>fst ` set calls. b - a < windowMs"
  shows "list_all allowed (fst (checkRateLimit_calls e userId calls))
       \<and> length (fst (checkRateLimit_calls e userId calls)) = length calls
       \<and> stored_requests (snd (checkRateLimit_calls e userId calls)) userId =
            stored_requests e userId @ map fst calls
       \<and> \<not> get_fails (RATE_LIMIT_KV (snd (checkRateLimit_calls e userId calls)))
       \<and> \<not> put_fails (RATE_LIMIT_KV (snd (checkRateLimit_calls e userId calls)))"
  using assms
proof (induction calls arbitrary: e)
  case Nil
  then show ?case by simp
next
  case (Cons c calls)
  obtain now now_stats where c: "c = (now, now_stats)" by (cases c)
  let ?e' = "snd (checkRateLimit e userId now now_stats)"
  have w: "in_window e userId now = stored_requests e userId"
    using Cons.prems(4) c by (intro in_window_all) auto
  have room: "length (in_window e userId now) < maxRequests"
    using Cons.prems(3) w by simp
  note step = checkRateLimit_admits [OF Cons.prems(1,2) room, of now_stats]
  have st: "stored_requests ?e' userId = stored_requests e userId @ [now]"
    using step(2) w by simp
  have ih: "list_all allowed (fst (checkRateLimit_calls ?e' userId calls))
       \<and> length (fst (checkRateLimit_calls ?e' userId calls)) = length calls
       \<and> stored_requests (snd (checkRateLimit_calls ?e' userId calls)) userId =
            stored_requests ?e' userId @ map fst calls
       \<and> \<not> get_fails (RATE_LIMIT_KV (snd (checkRateLimit_calls ?e' userId calls)))
       \<and> \<not> put_fails (RATE_LIMIT_KV (snd (checkRateLimit_calls ?e' userId calls)))"
  proof (rule Cons.IH [OF step(3) step(4)])
    show "length (stored_requests ?e' userId) + length calls \<le> maxRequests"
      using Cons.prems(3) st by simp
    show "\<forall>a\<in>set (stored_requests ?e' userId) \<union> fst ` set calls. \<forall>b\<in>fst ` set calls. b - a < windowMs"
      using Cons.prems(4) st c by auto
  qed
  show ?case
    using ih step(1) st c by (simp add: split_beta)
qed

text \<open>
  C2. With \<open>maxRequests = 100\<close> and \<open>windowMs = 3600000\<close>, from an absent rate-limit
  record and a store whose reads and writes of the record succeed: a hundred consecutive
  calls whose readings of the clock lie within one window (any two of them, and the reading
  of the next call, differ by less than \<open>windowMs\<close>) are all allowed; the call after them
  is denied with a positive \<open>retryAfter\<close>; and a call at a time when every stored
  timestamp is at least \<open>windowMs\<close> old is allowed again.
\<close>

theorem hundred_then_denied_then_admitted:
  assumes absent: "entries (RATE_LIMIT_KV e) (rate_limit_key userId) = None"
      and reads: "\<not> get_fails (RATE_LIMIT_KV e)"
      and writes: "\<not> put_fails (RATE_LIMIT_KV e)"
      and hundred: "length calls = 100"
      and within: "\<forall>a\<in>set (map fst calls @ [t101]). \<forall>b\<in>set (map fst calls @ [t101]). b - a < windowMs"
      and past: "\<forall>a\<in>set (map fst calls). windowMs \<le> t_later - a"
      and run: "checkRateLimit_calls e userId calls = (rs, e1)"
      and next_call: "checkRateLimit e1 userId t101 s101 = (r101, e2)"
      and later_call: "checkRateLimit e2 userId t_later s_later = (r_later, e3)"
  shows "length rs = 100 \<and> list_all allowed rs
       \<and> \<not> allowed r101 \<and> (\<exists>seconds. retryAfter r101 = Some seconds \<and> 0 < seconds)
       \<and> allowed r_later"
proof -
  have empty: "stored_requests e userId = []"
    using absent by (simp add: stored_requests_def)
  have inv: "list_all allowed (fst (checkRateLimit_calls e userId calls))
       \<and> length (fst (checkRateLimit_calls e userId calls)) = length calls
       \<and> stored_requests (snd (checkRateLimit_calls e userId calls)) userId =
            stored_requests e userId @ map fst calls
       \<and> \<not> get_fails (RATE_LIMIT_KV (snd (checkRateLimit_calls e userId calls)))
       \<and> \<not> put_fails (RATE_LIMIT_KV (snd (checkRateLimit_calls e userId calls)))"
  proof (rule calls_admitted [OF reads writes])
    show "length (stored_requests e userId) + length calls \<le> maxRequests"
      using empty hundred by (simp add: maxRequests_def)
    show "\<forall>a\<in>set (stored_requests e userId) \<union> fst ` set calls. \<forall>b\<in>fst ` set calls. b - a < windowMs"
      using within empty by auto
  qed
  with run empty have rs: "list_all allowed rs" "length rs = 100"
    and st1: "stored_requests e1 userId = map fst calls"
    and g1: "\<not> get_fails (RATE_LIMIT_KV e1)" and p1: "\<not> put_fails (RATE_LIMIT_KV e1)"
    using hundred by simp_all
  have w1: "in_window e1 userId t101 = map fst calls"
    using within st1 by (simp add: in_window_def)
  have full: "maxRequests \<le> length (in_window e1 userId t101)"
    using w1 hundred by (simp add: maxRequests_def)
  have r101: "r101 = \<lparr>allowed = False,
       retryAfter = Some (Math_ceil_div (Min (set (in_window e1 userId t101)) + windowMs - t101) 1000)\<rparr>"
    and e2: "e2 = e1"
    using next_call g1 full by (auto simp: checkRateLimit_cases)
  have pos: "0 < Math_ceil_div (Min (set (in_window e1 userId t101)) + windowMs - t101) 1000"
    using retry_at_least_one [OF full] by simp
  have w2: "in_window e2 userId t_later = []"
    using past st1 e2 by (auto simp: in_window_def filter_empty_conv)
  have "allowed r_later"
    using later_call w2 g1 e2 by (auto simp: checkRateLimit_cases maxRequests_def split: if_splits)
  then show ?thesis
    using rs r101 pos by simp
qed


theorem hundred_then_denied_then_admitted_witness:
  "length (fst (checkRateLimit_calls test_env (js ''anon_1_ab'') (replicate 100 (0, 0)))) = 100
   \<and> list_all allowed (fst (checkRateLimit_calls test_env (js ''anon_1_ab'') (replicate 100 (0, 0))))
   \<and> \<not> allowed (fst (checkRateLimit
         (snd (checkRateLimit_calls test_env (js ''anon_1_ab'') (replicate 100 (0, 0))))
         (js ''anon_1_ab'') 1000 1000))
   \<and> allowed (fst (checkRateLimit
         (snd (checkRateLimit
           (snd (checkRateLimit_calls test_env (js ''anon_1_ab'') (replicate 100 (0, 0))))
           (js ''anon_1_ab'') 1000 1000))
         (js ''anon_1_ab'') 3600000 3600000))"
proof -
  let ?u = "js ''anon_1_ab''"
  let ?calls = "replicate 100 (0, 0) :: (int \<times> int) list"
  let ?run = "checkRateLimit_calls test_env ?u ?calls"
  let ?second = "checkRateLimit (snd ?run) ?u 1000 1000"
  let ?third = "checkRateLimit (snd ?second) ?u 3600000 3600000"
  have 1: "entries (RATE_LIMIT_KV test_env) (rate_limit_key ?u) = None"
    by (simp add: test_env_def test_kv_def)
  have 2: "\<not> get_fails (RATE_LIMIT_KV test_env)" "\<not> put_fails (RATE_LIMIT_KV test_env)"
    by (simp_all add: test_env_def test_kv_def)
  have 3: "length ?calls = 100" by simp
  have 4: "\<forall>a\<in>set (map fst ?calls @ [1000]). \<forall>b\<in>set (map fst ?calls @ [1000]). b - a < windowMs"
    by (simp add: windowMs_def)
  have 5: "\<forall>a\<in>set (map fst ?calls). windowMs \<le> 3600000 - a"
    by (simp add: windowMs_def)
  have 6: "?run = (fst ?run, snd ?run)" "?second = (fst ?second, snd ?second)"
    "?third = (fst ?third, snd ?third)"
    by simp_all
  show ?thesis
    using hundred_then_denied_then_admitted [OF 1 2 3 4 5 6] by simp
qed


subsection \<open>Usage statistics\<close>

lemma updateUserStats_ok:
  assumes "\<not> get_fails (USER_STATS_KV e)" and "\<not> put_fails (USER_STATS_KV e)"
  shows "updateUserStats e userId now =
     e\<lparr>USER_STATS_KV := (USER_STATS_KV e)\<lparr>entries := (entries (USER_STATS_KV e))
        (stats_key userId \<mapsto>
           ((prior_stats e userId now)
              \<lparr>totalRequests := totalRequests (prior_stats e userId now) + 1,
               lastRequestAt := Some now,
               dailyRequests :=
                 filter (\<lambda>(date, n). \<not> Date_of date < now - retentionMs)
                   (AList.update (toISODate now)
                      (bump (dailyRequests (prior_stats e userId now)) (toISODate now))
                      (dailyRequests (prior_stats e userId now)))\<rparr>, None))\<rparr>\<rparr>"
proof -
  have k: "js ''user_stats:'' @ userId = stats_key userId"
    by (simp add: stats_key_def)
  have r: "now - 30 * 24 * 60 * 60 * 1000 = now - retentionMs"
    by (simp add: retentionMs_def)
  show ?thesis
    unfolding updateUserStats_def k r
    using assms
    by (auto simp: Let_def kv_get_def kv_put_def prior_stats_def stored_stats_def
             split: option.splits)
qed

lemma today_retained: "\<not> Date_of (toISODate now) < now - retentionMs"
  by (simp add: Date_of_def toISODate_def retentionMs_def) 

lemma map_of_filter_key:
  "map_of (filter (\<lambda>(k, v). P k) al) k = (if P k then map_of al k else None)"
  by (induction al) auto

lemma map_of_update_same: "map_of (AList.update k v al) k = Some v"
  by (simp add: update_conv')

lemma bump_plus: "bump daily today = (case map_of daily today of None \<Rightarrow> 0 | Some c \<Rightarrow> c) + 1"
  by (simp add: bump_def split: option.splits)

lemma update_step:
  assumes "\<not> get_fails (USER_STATS_KV e)" and "\<not> put_fails (USER_STATS_KV e)"
  shows "\<exists>after. stored_stats (updateUserStats e userId now) userId = Some after
       \<and> totalRequests after = totalRequests (prior_stats e userId now) + 1
       \<and> lastRequestAt after = Some now
       \<and> count_on after (toISODate now) = count_on (prior_stats e userId now) (toISODate now) + 1
       \<and> (\<forall>date\<in>set (map fst (dailyRequests after)). \<not> Date_of date < now - retentionMs)"
  unfolding updateUserStats_ok [OF assms]
  by (auto simp: stored_stats_def count_on_def map_of_filter_key today_retained
        map_of_update_same bump_plus)


lemma sum_update:
  assumes "distinct (map fst al)"
  shows "sum_list (map snd (AList.update k v al)) =
           sum_list (map snd al) - (case map_of al k of None \<Rightarrow> 0 | Some c \<Rightarrow> c) + (v :: int)"
  using assms
proof (induction al)
  case Nil
  then show ?case by simp
next
  case (Cons p al)
  then show ?case
    by (cases p) (auto simp: image_iff split: option.splits dest: map_of_SomeD)
qed

lemma sum_bump:
  assumes "distinct (map fst al)"
  shows "sum_list (map snd (AList.update k (bump al k) al)) = sum_list (map snd al) + 1"
  by (simp add: sum_update [OF assms] bump_plus split: option.splits)

lemma updateUserStats_flags:
  "get_fails (USER_STATS_KV (updateUserStats e userId now)) = get_fails (USER_STATS_KV e)"
  "put_fails (USER_STATS_KV (updateUserStats e userId now)) = put_fails (USER_STATS_KV e)"
  by (simp_all add: updateUserStats_def Let_def kv_get_def kv_put_def split: sum.splits)

lemma prior_stats_counts:
  "dailyRequests (prior_stats e userId a) = dailyRequests (prior_stats e userId b)"
  "totalRequests (prior_stats e userId a) = totalRequests (prior_stats e userId b)"
  by (simp_all add: prior_stats_def split: option.splits)

lemma calls_snoc:
  "updateUserStats_calls e userId (readings @ [now]) =
     updateUserStats (updateUserStats_calls e userId readings) userId now"
  by (simp add: updateUserStats_calls_def)

lemma calls_counted:
  assumes "\<not> get_fails (USER_STATS_KV e)" and "\<not> put_fails (USER_STATS_KV e)"
      and "no_usage e userId"
      and "\<forall>t\<in>set readings. \<forall>t'\<in>set readings. \<not> Date_of (toISODate t) < t' - retentionMs"
  shows "\<not> get_fails (USER_STATS_KV (updateUserStats_calls e userId readings))
       \<and> \<not> put_fails (USER_STATS_KV (updateUserStats_calls e userId readings))
       \<and> (readings \<noteq> [] \<longrightarrow> stored_stats (updateUserStats_calls e userId readings) userId \<noteq> None)
       \<and> distinct (map fst (dailyRequests (prior_stats (updateUserStats_calls e userId readings) userId 0)))
       \<and> set (map fst (dailyRequests (prior_stats (updateUserStats_calls e userId readings) userId 0)))
            = toISODate ` set readings
       \<and> sum_list (map snd (dailyRequests (prior_stats (updateUserStats_calls e userId readings) userId 0)))
            = int (length readings)
       \<and> totalRequests (prior_stats (updateUserStats_calls e userId readings) userId 0)
            = int (length readings)"
  using assms(4)
proof (induction readings rule: rev_induct)
  case Nil
  show ?case
    using assms(1,2,3)
    by (auto simp: updateUserStats_calls_def no_usage_def prior_stats_def split: option.splits)
next
  case (snoc now readings)
  let ?e = "updateUserStats_calls e userId readings"
  let ?prior = "prior_stats ?e userId now"
  let ?daily = "dailyRequests ?prior"
  let ?upd = "AList.update (toISODate now) (bump ?daily (toISODate now)) ?daily"
  have ih: "\<not> get_fails (USER_STATS_KV ?e)" "\<not> put_fails (USER_STATS_KV ?e)"
    "distinct (map fst ?daily)"
    "set (map fst ?daily) = toISODate ` set readings"
    "sum_list (map snd ?daily) = int (length readings)"
    "totalRequests ?prior = int (length readings)"
    using snoc.IH snoc.prems
    by (simp_all add: prior_stats_counts [of ?e userId now 0])
  have keys: "set (map fst ?upd) = toISODate ` set (readings @ [now])"
    using ih(4) by (auto simp: dom_update)
  have keep: "filter (\<lambda>(date, n). \<not> Date_of date < now - retentionMs) ?upd = ?upd"
  proof -
    have "\<forall>p\<in>set ?upd. \<not> Date_of (fst p) < now - retentionMs"
    proof
      fix p assume "p \<in> set ?upd"
      then have "fst p \<in> set (map fst ?upd)" by simp
      then have "fst p \<in> toISODate ` set (readings @ [now])" using keys by simp
      then show "\<not> Date_of (fst p) < now - retentionMs" using snoc.prems by auto
    qed
    then show ?thesis by (simp add: filter_id_conv case_prod_beta)
  qed
  let ?after = "?prior\<lparr>totalRequests := totalRequests ?prior + 1, lastRequestAt := Some now,
                        dailyRequests := ?upd\<rparr>"
  have st: "stored_stats (updateUserStats ?e userId now) userId = Some ?after"
    unfolding updateUserStats_ok [OF ih(1,2)] keep
    by (simp add: stored_stats_def)
  then have pr: "prior_stats (updateUserStats ?e userId now) userId 0 = ?after"
    by (simp add: prior_stats_def)
  show ?case
    unfolding calls_snoc pr
    using st ih keys
    by (simp add: updateUserStats_flags distinct_update sum_bump)
qed


text \<open>
  C8 (as the code has it). When the reads and writes of the statistics succeed, one call of
  \<open>updateUserStats\<close> adds one to \<open>totalRequests\<close>, sets \<open>lastRequestAt\<close> to
  \<open>now\<close>, adds one to the bucket of the calendar date of \<open>now\<close>, and leaves no bucket
  for a date older than \<open>now - 30 days\<close>. After \<open>N\<close> such calls from an empty record,
  on two distinct calendar dates that all stay inside the retention of thirty days (no date
  of a call lies more than thirty days before another call), \<open>dailyRequests\<close> has exactly
  two entries, they sum to \<open>N\<close>, and \<open>totalRequests\<close> is \<open>N\<close>.
\<close>

theorem updateUserStats_counts:
  assumes reads: "\<not> get_fails (USER_STATS_KV e)" and writes: "\<not> put_fails (USER_STATS_KV e)"
  shows "(\<exists>after. stored_stats (updateUserStats e userId now) userId = Some after
            \<and> totalRequests after = totalRequests (prior_stats e userId now) + 1
            \<and> lastRequestAt after = Some now
            \<and> count_on after (toISODate now) = count_on (prior_stats e userId now) (toISODate now) + 1
            \<and> (\<forall>date\<in>set (map fst (dailyRequests after)). \<not> Date_of date < now - retentionMs))
       \<and> (no_usage e userId
            \<and> toISODate ` set readings = {d1, d2} \<and> d1 \<noteq> d2
            \<and> (\<forall>t\<in>set readings. \<forall>t'\<in>set readings. \<not> Date_of (toISODate t) < t' - retentionMs)
          \<longrightarrow> (\<exists>final. stored_stats (updateUserStats_calls e userId readings) userId = Some final
                 \<and> length (dailyRequests final) = 2
                 \<and> sum_list (map snd (dailyRequests final)) = int (length readings)
                 \<and> totalRequests final = int (length readings)))"
proof (intro conjI impI)
  show "\<exists>after. stored_stats (updateUserStats e userId now) userId = Some after
            \<and> totalRequests after = totalRequests (prior_stats e userId now) + 1
            \<and> lastRequestAt after = Some now
            \<and> count_on after (toISODate now) = count_on (prior_stats e userId now) (toISODate now) + 1
            \<and> (\<forall>date\<in>set (map fst (dailyRequests after)). \<not> Date_of date < now - retentionMs)"
    by (rule update_step [OF reads writes])
next
  assume h: "no_usage e userId
            \<and> toISODate ` set readings = {d1, d2} \<and> d1 \<noteq> d2
            \<and> (\<forall>t\<in>set readings. \<forall>t'\<in>set readings. \<not> Date_of (toISODate t) < t' - retentionMs)"
  let ?e = "updateUserStats_calls e userId readings"
  from h have ne: "readings \<noteq> []" by auto
  from h have inv: "(readings \<noteq> [] \<longrightarrow> stored_stats ?e userId \<noteq> None)
       \<and> distinct (map fst (dailyRequests (prior_stats ?e userId 0)))
       \<and> set (map fst (dailyRequests (prior_stats ?e userId 0))) = toISODate ` set readings
       \<and> sum_list (map snd (dailyRequests (prior_stats ?e userId 0))) = int (length readings)
       \<and> totalRequests (prior_stats ?e userId 0) = int (length readings)"
    using calls_counted [OF reads writes, of userId readings] by simp
  with ne obtain final where f: "stored_stats ?e userId = Some final" by auto
  then have p: "prior_stats ?e userId 0 = final" by (simp add: prior_stats_def)
  have d: "distinct (map fst (dailyRequests final))"
    using inv p by simp
  have "length (map fst (dailyRequests final)) = card (set (map fst (dailyRequests final)))"
    by (rule distinct_card [OF d, symmetric])
  also have "\<dots> = card {d1, d2}" using inv p h by simp
  also have "\<dots> = 2" using h by simp
  finally have "length (dailyRequests final) = 2" by simp
  then show "\<exists>final. stored_stats ?e userId = Some final
                 \<and> length (dailyRequests final) = 2
                 \<and> sum_list (map snd (dailyRequests final)) = int (length readings)
                 \<and> totalRequests final = int (length readings)"
    using f inv p by auto
qed

theorem updateUserStats_counts_witness:
  "map_option totalRequests (stored_stats (updateUserStats test_env (js ''anon_1_ab'') 0)
      (js ''anon_1_ab'')) = Some 1
   \<and> (\<exists>final. stored_stats (updateUserStats_calls test_env (js ''anon_1_ab'')
                   [0, 86400000, 86400001]) (js ''anon_1_ab'') = Some final
          \<and> length (dailyRequests final) = 2
          \<and> sum_list (map snd (dailyRequests final)) = 3
          \<and> totalRequests final = 3)"
proof -
  let ?u = "js ''anon_1_ab''"
  have 1: "\<not> get_fails (USER_STATS_KV test_env)" "\<not> put_fails (USER_STATS_KV test_env)"
    by (simp_all add: test_env_def test_kv_def)
  have 2: "no_usage test_env ?u"
    by (simp add: no_usage_def stored_stats_def test_env_def test_kv_def)
  have 3: "toISODate ` set [0, 86400000, 86400001] = {0, 1}" "(0::int) \<noteq> 1"
    by (auto simp: toISODate_def)
  have 4: "\<forall>t\<in>set [0, 86400000, 86400001]. \<forall>t'\<in>set [0, 86400000, 86400001].
             \<not> Date_of (toISODate t) < t' - retentionMs"
    by (simp add: toISODate_def Date_of_def retentionMs_def)
  have 5: "totalRequests (prior_stats test_env ?u 0) = 0"
    by (simp add: prior_stats_def stored_stats_def test_env_def test_kv_def)
  show ?thesis
    using updateUserStats_counts [OF 1, of ?u 0 "[0, 86400000, 86400001]" 0 1] 2 3 4 5
    by auto
qed

text \<open>
  The claim as stated fails when the two dates are more than thirty days apart: after one
  call on day 0 and one on day 40 the bucket of day 0 has been pruned, and \<open>dailyRequests\<close>
  has one entry, with count 1, while \<open>totalRequests\<close> is 2.
\<close>

theorem two_dates_pruned_counterexample:
  "toISODate 0 \<noteq> toISODate 3456000000
   \<and> map_option dailyRequests
       (stored_stats (updateUserStats_calls test_env (js ''anon_1_ab'') [0, 3456000000])
          (js ''anon_1_ab'')) = Some [(40, 1)]
   \<and> map_option totalRequests
       (stored_stats (updateUserStats_calls test_env (js ''anon_1_ab'') [0, 3456000000])
          (js ''anon_1_ab'')) = Some 2"
  by (simp add: updateUserStats_calls_def updateUserStats_def stored_stats_def stats_key_def
        kv_get_def kv_put_def test_env_def test_kv_def toISODate_def Date_of_def bump_def Let_def)


subsection \<open>The test platform reads a payload back\<close>

text \<open>
  The JSON reader of the test platform reads the text that \<open>JSON.stringify\<close> writes for a
  payload \<open>{userId, iat, exp, type: 'anonymous'}\<close> back to the payload, for every identity
  and all integers: a platform as the round-trip below assumes exists.
\<close>

lemma read_string_quote: "read_string (34 # m) = Some ([], m)"
  by (cases m) simp_all

lemma read_string_plain:
  assumes "32 \<le> c" and "c \<noteq> 34" and "c \<noteq> 92" and "m \<noteq> []"
  shows "read_string (c # m) =
           (case read_string m of None \<Rightarrow> None | Some (s, rest) \<Rightarrow> Some (c # s, rest))"
  using assms by (cases m) simp_all

lemma read_string_escape:
  assumes "e \<noteq> 117" and "unescape e = Some u"
  shows "read_string (92 # e # m) =
           (case read_string m of None \<Rightarrow> None | Some (s, rest) \<Rightarrow> Some (u # s, rest))"
  using assms by simp

lemma hex_value_digit: "d < 16 \<Longrightarrow> hex_value (hex_digit d) = Some d"
  by (auto simp: hex_value_def hex_digit_def)

lemma read_string_unicode:
  assumes "c < 65536"
  shows "read_string (unicode_escape c @ m) =
           (case read_string m of None \<Rightarrow> None | Some (s, rest) \<Rightarrow> Some (c # s, rest))"
proof -
  have d: "c div 4096 mod 16 < 16" "c div 256 mod 16 < 16" "c div 16 mod 16 < 16" "c mod 16 < 16"
    by simp_all
  have "c mod 256 = 16 * (c div 16 mod 16) + c mod 16"
    using mod_mult2_eq [of c 16 16] by simp
  moreover have "c mod 4096 = 256 * (c div 256 mod 16) + c mod 256"
    using mod_mult2_eq [of c 256 16] by simp
  moreover have "c mod 65536 = 4096 * (c div 4096 mod 16) + c mod 4096"
    using mod_mult2_eq [of c 4096 16] by simp
  ultimately have v: "c div 4096 mod 16 * 4096 + c div 256 mod 16 * 256 + c div 16 mod 16 * 16 + c mod 16 = c"
    using assms by simp
  show ?thesis
    by (simp add: unicode_escape_def hex_value_digit [OF d(1)] hex_value_digit [OF d(2)]
          hex_value_digit [OF d(3)] hex_value_digit [OF d(4)] v split: option.splits)
qed

lemma read_string_unit:
  assumes "m \<noteq> []"
  shows "read_string (quote_unit c @ m) =
           (case read_string m of None \<Rightarrow> None | Some (s, rest) \<Rightarrow> Some (c # s, rest))"
proof (cases "c < 32 \<or> is_high_surrogate c \<or> is_low_surrogate c")
  case True
  then have small: "c < 65536" by (auto simp: is_high_surrogate_def is_low_surrogate_def)
  show ?thesis
  proof (cases "c = 8 \<or> c = 9 \<or> c = 10 \<or> c = 12 \<or> c = 13")
    case True
    then show ?thesis
      by (auto simp: quote_unit_def unescape_def)
  next
    case False
    with True have "quote_unit c = unicode_escape c"
      by (auto simp: quote_unit_def is_high_surrogate_def is_low_surrogate_def)
    then show ?thesis by (simp add: read_string_unicode [OF small] del: read_string.simps)
  qed
next
  case False
  show ?thesis
  proof (cases "c = 34 \<or> c = 92")
    case True
    then show ?thesis by (auto simp: quote_unit_def unescape_def)
  next
    case False
    with \<open>\<not> (c < 32 \<or> is_high_surrogate c \<or> is_low_surrogate c)\<close>
    have q: "quote_unit c = [c]" and p: "32 \<le> c" "c \<noteq> 34" "c \<noteq> 92"
      by (auto simp: quote_unit_def)
    show ?thesis by (simp add: q read_string_plain [OF p assms] del: read_string.simps)
  qed
qed

lemma read_string_quoted:
  "read_string (quote_units s @ 34 # rest) = Some (s, rest)"
proof (induction s rule: quote_units.induct)
  case 1
  show ?case by (simp add: read_string_quote)
next
  case (2 c)
  show ?case by (simp add: read_string_unit read_string_quote del: read_string.simps)
next
  case (3 c d cs)
  show ?case
  proof (cases "is_high_surrogate c \<and> is_low_surrogate d")
    case True
    then have c: "32 \<le> c" "c \<noteq> 34" "c \<noteq> 92" and d: "32 \<le> d" "d \<noteq> 34" "d \<noteq> 92"
      by (auto simp: is_high_surrogate_def is_low_surrogate_def)
    have "read_string (c # d # quote_units cs @ 34 # rest) = Some (c # d # cs, rest)"
      using 3(1) [OF True]
      by (simp add: read_string_plain [OF c] read_string_plain [OF d] del: read_string.simps)
    with True show ?thesis by (simp del: read_string.simps)
  next
    case False
    then have "quote_units (c # d # cs) = quote_unit c @ quote_units (d # cs)"
      by auto
    then show ?thesis
      using 3(2) [OF False] by (simp add: read_string_unit del: read_string.simps quote_units.simps)
  qed
qed


lemma read_digits_nat_digits:
  "read_digits acc (nat_digits n @ m) = read_digits (acc * 10 ^ length (nat_digits n) + n) m"
proof (induction n arbitrary: acc m rule: nat_digits.induct)
  case (1 n)
  show ?case
  proof (cases "n < 10")
    case True
    then show ?thesis
      by (simp add: nat_digits.simps [of n] is_digit_def)
  next
    case False
    have d: "is_digit (48 + n mod 10)"
      using mod_less_divisor [of 10 n] by (simp add: is_digit_def)
    have "read_digits acc (nat_digits n @ m) =
            read_digits acc (nat_digits (n div 10) @ (48 + n mod 10) # m)"
      using False by (simp add: nat_digits.simps [of n])
    also have "\<dots> = read_digits (acc * 10 ^ length (nat_digits (n div 10)) + n div 10)
                        ((48 + n mod 10) # m)"
      by (rule 1 [OF False])
    also have "\<dots> = read_digits ((acc * 10 ^ length (nat_digits (n div 10)) + n div 10) * 10 + n mod 10) m"
      using d by simp
    also have "(acc * 10 ^ length (nat_digits (n div 10)) + n div 10) * 10 + n mod 10 =
                 acc * 10 ^ length (nat_digits n) + n"
      using False by (simp add: nat_digits.simps [of n] algebra_simps)
    finally show ?thesis .
  qed
qed

lemma read_digits_stop: "\<not> is_digit c \<Longrightarrow> read_digits acc (c # rest) = (acc, c # rest)"
  by simp

lemma nat_digits_head:
  "\<exists>d ds. nat_digits n = d # ds \<and> is_digit d \<and> (d = 48 \<longrightarrow> n = 0 \<and> ds = [])"
proof (induction n rule: nat_digits.induct)
  case (1 n)
  show ?case
  proof (cases "n < 10")
    case True
    then show ?thesis
      by (simp add: nat_digits.simps [of n] is_digit_def)
  next
    case False
    from 1 [OF False] obtain d ds where h: "nat_digits (n div 10) = d # ds" "is_digit d"
      "d = 48 \<longrightarrow> n div 10 = 0 \<and> ds = []"
      by blast
    from False have "n div 10 \<noteq> 0" by simp
    with h have "d \<noteq> 48" by blast
    with h False show ?thesis
      by (simp add: nat_digits.simps [of n])
  qed
qed

lemma read_natural_nat_digits:
  assumes "\<not> is_digit c"
  shows "read_natural (nat_digits n @ c # rest) = Some (n, c # rest)"
proof -
  obtain d ds where h: "nat_digits n = d # ds" "is_digit d" "d = 48 \<longrightarrow> n = 0 \<and> ds = []"
    using nat_digits_head by blast
  show ?thesis
  proof (cases "d = 48")
    case True
    with h show ?thesis by (simp add: read_natural_def)
  next
    case False
    have "read_digits 0 (nat_digits n @ c # rest) = (n, c # rest)"
      by (simp add: read_digits_nat_digits read_digits_stop [OF assms] del: read_digits.simps)
    moreover have "read_digits 0 (nat_digits n @ c # rest) = read_digits (d - 48) (ds @ c # rest)"
      using h by simp
    ultimately show ?thesis
      using h False by (simp add: read_natural_def)
  qed
qed

lemma read_number_toString:
  assumes "\<not> is_digit c" and "c \<noteq> 46" and "c \<noteq> 101" and "c \<noteq> 69"
  shows "read_number (Number_toString n @ c # rest) = Some (n, c # rest)"
proof (cases "n < 0")
  case True
  then show ?thesis
    using assms
    by (simp add: read_number_def Number_toString_def read_natural_nat_digits)
next
  case False
  obtain d ds where h: "nat_digits (nat n) = d # ds" "is_digit d"
    using nat_digits_head by blast
  then have "d \<noteq> 45" by (auto simp: is_digit_def)
  moreover have "read_natural (d # ds @ c # rest) = Some (nat n, c # rest)"
    using read_natural_nat_digits [OF assms(1), of "nat n" rest] h by simp
  ultimately show ?thesis
    using False assms h by (simp add: read_number_def Number_toString_def)
qed

lemma read_value_number:
  assumes "fuel \<noteq> 0" and "\<not> is_digit c" and "c \<noteq> 46" and "c \<noteq> 101" and "c \<noteq> 69"
  shows "read_value fuel (Number_toString n @ c # rest) = Some (JNum n, c # rest)"
proof -
  obtain d ds where h: "Number_toString n = d # ds" "is_digit d \<or> d = 45"
  proof (cases "n < 0")
    case True
    then show ?thesis using that by (simp add: Number_toString_def)
  next
    case False
    obtain d ds where "nat_digits (nat n) = d # ds" "is_digit d"
      using nat_digits_head by blast
    with False show ?thesis using that by (simp add: Number_toString_def)
  qed
  then have d: "d \<noteq> 34" "d \<noteq> 91" "d \<noteq> 123" "d \<noteq> 116" "d \<noteq> 102" "d \<noteq> 110"
    by (auto simp: is_digit_def)
  have "read_number (d # ds @ c # rest) = Some (n, c # rest)"
    using read_number_toString [OF assms(2-5), of n rest] h by simp
  then show ?thesis
    using assms(1) d h(1)
    by (subst read_value.simps) (simp add: js_def)
qed


lemma skip_ws_number: "skip_ws (Number_toString n @ m) = Number_toString n @ m"
proof -
  obtain d ds where h: "Number_toString n = d # ds" "is_digit d \<or> d = 45"
  proof (cases "n < 0")
    case True
    then show ?thesis using that by (simp add: Number_toString_def)
  next
    case False
    obtain d ds where "nat_digits (nat n) = d # ds" "is_digit d"
      using nat_digits_head by blast
    with False show ?thesis using that by (simp add: Number_toString_def)
  qed
  then show ?thesis by (auto simp: is_digit_def)
qed

lemma read_value_string:
  "fuel \<noteq> 0 \<Longrightarrow> read_value fuel (34 # quote_units s @ 34 # rest) = Some (JStr s, rest)"
  by (subst read_value.simps) (simp add: read_string_quoted del: read_string.simps)

lemma payload_keys:
  "js ''userId'' \<noteq> js ''iat''" "js ''userId'' \<noteq> js ''exp''" "js ''userId'' \<noteq> js ''type''"
  "js ''iat'' \<noteq> js ''exp''" "js ''iat'' \<noteq> js ''type''" "js ''exp'' \<noteq> js ''type''"
  by (simp_all add: js_def)

lemma read_value_payload:
  "read_value (Suc (Suc (Suc (Suc (Suc (Suc n))))))
     (JSON_stringify (anonymous_payload (JStr userId) iat exp') @ rest) =
   Some (anonymous_payload (JStr userId) iat exp', rest)"
  by (simp add: anonymous_payload_def QuoteJSONString_def
        read_value.simps [where s = "123 # s'" for s']
        read_members.simps [where s = "34 # s'" for s']
        read_string_quoted read_value_string read_value_number skip_ws_number
        is_digit_def payload_keys
        del: read_string.simps)


lemma read_json_payload:
  "read_json (JSON_stringify (anonymous_payload (JStr userId) iat exp')) =
     Inr (anonymous_payload (JStr userId) iat exp')"
proof -
  let ?t = "JSON_stringify (anonymous_payload (JStr userId) iat exp')"
  have "6 \<le> length ?t"
    by (simp add: anonymous_payload_def QuoteJSONString_def)
  then have fuel: "length ?t = Suc (Suc (Suc (Suc (Suc (Suc (length ?t - 6))))))"
    by simp
  have ws: "skip_ws ?t = ?t"
    by (simp add: anonymous_payload_def)
  have "read_value (length ?t) (?t @ []) = Some (anonymous_payload (JStr userId) iat exp', [])"
    by (subst fuel) (rule read_value_payload)
  then show ?thesis
    by (simp add: read_json_def ws)
qed


subsection \<open>Issuing and verifying a credential\<close>

lemma b64_index_char: "n < 64 \<Longrightarrow> b64_index (b64_char n) = Some n"
  by (auto simp: b64_index_def b64_char_def)

lemma b64_char_plain:
  "n < 64 \<Longrightarrow> b64_char n \<noteq> 46 \<and> b64_char n \<noteq> 61 \<and> \<not> is_ascii_whitespace (b64_char n)"
  by (auto simp: b64_char_def is_ascii_whitespace_def)

lemma sextets_small:
  "list_all (\<lambda>c. c \<le> 255) xs \<Longrightarrow> list_all (\<lambda>n. n < 64) (sextets xs)"
  by (induction xs rule: sextets.induct) (auto simp: div_less_iff_less_mult)

lemma decode_sextets:
  "list_all (\<lambda>c. c \<le> 255) xs \<Longrightarrow> b64_decode (sextets xs) = xs"
proof (induction xs rule: sextets.induct)
  case 1
  then show ?case by simp
next
  case (2 a)
  then show ?case by simp
next
  case (3 a b)
  then have "b div 16 < 16" by (simp add: div_less_iff_less_mult)
  then show ?case by simp
next
  case (4 a b c rest)
  then have "b div 16 < 16" "c div 64 < 4" by (simp_all add: div_less_iff_less_mult)
  with 4 show ?case by simp
qed

lemma length_sextets: "length (sextets xs) mod 4 \<noteq> 1"
  by (induction xs rule: sextets.induct) simp_all

lemma strip_padding_two: "strip_padding (ys @ [61, 61]) = ys"
  by simp

lemma strip_padding_none:
  assumes "ys = [] \<or> last ys \<noteq> 61"
  shows "strip_padding ys = ys"
proof (cases ys rule: rev_cases)
  case Nil
  then show ?thesis by simp
next
  case (snoc zs y)
  with assms have y: "y \<noteq> 61" by simp
  show ?thesis
  proof (cases zs rule: rev_cases)
    case Nil
    with snoc y show ?thesis by simp
  next
    case (snoc ws z)
    with \<open>ys = zs @ [y]\<close> y show ?thesis by simp
  qed
qed

lemma strip_padding_one:
  assumes "ys = [] \<or> last ys \<noteq> 61"
  shows "strip_padding (ys @ [61]) = ys"
proof (cases ys rule: rev_cases)
  case Nil
  then show ?thesis by simp
next
  case (snoc zs y)
  with assms have "y \<noteq> 61" by simp
  with snoc show ?thesis by simp
qed


lemma encode_shape:
  "\<exists>pad. b64_encode xs = map b64_char (sextets xs) @ pad \<and> (pad = [] \<or> pad = [61] \<or> pad = [61, 61])"
  by (induction xs rule: sextets.induct) auto

lemma length_encode: "length (b64_encode xs) mod 4 = 0"
  by (induction xs rule: b64_encode.induct) simp_all

lemma encode_empty: "b64_encode xs = [] \<longleftrightarrow> xs = []"
  by (cases xs rule: b64_encode.cases) simp_all

lemma encoded_plain:
  assumes "list_all (\<lambda>c. c \<le> 255) xs"
  shows "list_all (\<lambda>c. c \<noteq> 61 \<and> c \<noteq> 46 \<and> \<not> is_ascii_whitespace c \<and> b64_index c \<noteq> None)
           (map b64_char (sextets xs))"
  using sextets_small [OF assms]
  by (auto simp: list_all_iff b64_char_plain b64_index_char)


lemma atob_encode:
  assumes "list_all (\<lambda>c. c \<le> 255) xs"
  shows "atob (b64_encode xs) = Inr xs"
proof -
  let ?m = "map b64_char (sextets xs)"
  obtain pad where shape: "b64_encode xs = ?m @ pad"
    and pad: "pad = [] \<or> pad = [61] \<or> pad = [61, 61]"
    using encode_shape by blast
  have plain: "list_all (\<lambda>c. c \<noteq> 61 \<and> c \<noteq> 46 \<and> \<not> is_ascii_whitespace c \<and> b64_index c \<noteq> None) ?m"
    by (rule encoded_plain [OF assms])
  have nows: "filter (\<lambda>c. \<not> is_ascii_whitespace c) (b64_encode xs) = b64_encode xs"
    using plain pad unfolding shape
    by (auto simp: filter_id_conv list_all_iff is_ascii_whitespace_def)
  have last: "?m = [] \<or> last ?m \<noteq> 61"
  proof (cases "?m = []")
    case False
    then have "last ?m \<in> set ?m" by (rule last_in_set)
    then show ?thesis using plain by (auto simp: list_all_iff)
  qed simp
  have strip: "strip_padding (b64_encode xs) = ?m"
    using pad strip_padding_none [OF last] strip_padding_one [OF last] strip_padding_two [of ?m]
    unfolding shape by auto
  have valid: "\<not> list_ex (\<lambda>c. b64_index c = None) ?m"
    using plain by (auto simp: list_all_iff list_ex_iff)
  have idx: "map (\<lambda>c. case b64_index c of Some n \<Rightarrow> n | None \<Rightarrow> 0) ?m = sextets xs"
    using sextets_small [OF assms]
    by (auto simp: list_all_iff b64_index_char intro!: map_idI)
  have len: "length ?m mod 4 \<noteq> 1"
    using length_sextets [of xs] by simp
  show ?thesis
    unfolding atob_def nows
    using length_encode [of xs] strip valid idx len decode_sextets [OF assms]
    by (simp add: Let_def)
qed

lemma encode_no_dot:
  assumes "list_all (\<lambda>c. c \<le> 255) xs"
  shows "46 \<notin> set (b64_encode xs)"
proof -
  obtain pad where shape: "b64_encode xs = map b64_char (sextets xs) @ pad"
    and pad: "pad = [] \<or> pad = [61] \<or> pad = [61, 61]"
    using encode_shape by blast
  show ?thesis
    using encoded_plain [OF assms] pad unfolding shape
    by (auto simp: list_all_iff)
qed

lemma split_on_segment:
  assumes "sep \<notin> set a"
  shows "split_on sep (a @ sep # rest) = a # split_on sep rest"
  using assms
  by (induction a) (auto split: list.splits)

lemma split_on_last:
  assumes "sep \<notin> set a"
  shows "split_on sep a = [a]"
  using assms
  by (induction a) (auto split: list.splits)

lemma split_three:
  assumes "sep \<notin> set a" and "sep \<notin> set b" and "sep \<notin> set c"
  shows "split_on sep (a @ sep # b @ sep # c) = [a, b, c]"
  by (simp add: split_on_segment [OF assms(1)] split_on_segment [OF assms(2)] split_on_last [OF assms(3)])


lemma nat_digits_latin1: "list_all (\<lambda>c. c \<le> 255) (nat_digits n)"
proof (induction n rule: nat_digits.induct)
  case (1 n)
  show ?case
  proof (cases "n < 10")
    case True
    then show ?thesis by (simp add: nat_digits.simps [of n])
  next
    case False
    have "n mod 10 < 10" by simp
    then have "48 + n mod 10 \<le> 255" by linarith
    with False 1 show ?thesis by (simp add: nat_digits.simps [of n])
  qed
qed

lemma Number_toString_latin1: "list_all (\<lambda>c. c \<le> 255) (Number_toString n)"
  by (simp add: Number_toString_def nat_digits_latin1)

lemma hex_digit_mod: "hex_digit (x mod 16) \<le> 255"
  using mod_less_divisor [of 16 x] by (auto simp: hex_digit_def)

lemma unicode_escape_latin1: "list_all (\<lambda>c. c \<le> 255) (unicode_escape c)"
  by (simp add: unicode_escape_def hex_digit_mod)

lemma quote_unit_latin1: "c \<le> 255 \<Longrightarrow> list_all (\<lambda>c. c \<le> 255) (quote_unit c)"
  by (simp add: quote_unit_def unicode_escape_latin1)

lemma quote_units_latin1:
  "list_all (\<lambda>c. c \<le> 255) s \<Longrightarrow> list_all (\<lambda>c. c \<le> 255) (quote_units s)"
  by (induction s rule: quote_units.induct)
     (auto simp: quote_unit_latin1 is_high_surrogate_def)

lemma header_text:
  "btoa (JSON_stringify jwt_header) = Inr (js ''eyJhbGciOiJIUzI1NiIsInR5cCI6IkpXVCJ9'')"
  by (simp add: jwt_header_def QuoteJSONString_def js_def quote_unit_def btoa_def b64_char_def
        is_high_surrogate_def is_low_surrogate_def)

lemma bytes_latin1: "list_all (\<lambda>c. c \<le> 255) (map unat (bs :: byte list))"
proof -
  have "unat b \<le> 255" for b :: byte
  proof -
    have "unat b < 2 ^ LENGTH(8)" by (rule unsigned_less)
    then show ?thesis by simp
  qed
  then show ?thesis by (simp add: list_all_iff)
qed

lemma hex_digit_div: "hex_digit (unat (b :: byte) div 16) \<le> 255"
proof -
  have "unat b < 2 ^ LENGTH(8)" by (rule unsigned_less)
  then have "unat b div 16 < 16" by simp
  then show ?thesis by (auto simp: hex_digit_def)
qed

lemma hex_bytes_latin1: "list_all (\<lambda>c. c \<le> 255) (concat (map hex_byte randomBytes))"
  by (induction randomBytes) (simp_all add: hex_byte_def hex_digit_div hex_digit_mod)

lemma generateAnonymousUserId_latin1:
  "list_all (\<lambda>c. c \<le> 255) (generateAnonymousUserId now randomBytes)"
  by (simp add: generateAnonymousUserId_def js_def Number_toString_latin1 hex_bytes_latin1)

lemma payload_text:
  "JSON_stringify (anonymous_payload (JStr userId) iat exp') =
     js ''{\"userId\":\"'' @ quote_units userId @ js ''\",\"iat\":'' @ Number_toString iat
       @ js '',\"exp\":'' @ Number_toString exp' @ js '',\"type\":\"anonymous\"}''"
  by (simp add: anonymous_payload_def QuoteJSONString_def js_def
        quote_unit_def is_high_surrogate_def is_low_surrogate_def)

lemma payload_latin1_iff:
  "list_all (\<lambda>c. c \<le> 255) (JSON_stringify (anonymous_payload (JStr userId) iat exp'))
   \<longleftrightarrow> list_all (\<lambda>c. c \<le> 255) (quote_units userId)"
  by (simp add: payload_text js_def Number_toString_latin1)

lemma btoa_cases:
  "btoa s = (if list_all (\<lambda>c. c \<le> 255) s then Inr (b64_encode s) else Inl InvalidCharacterError)"
  by (simp add: btoa_def list_all_iff list_ex_iff not_le)

lemma header_encoded:
  "list_all (\<lambda>c. c \<le> 255) (JSON_stringify jwt_header)
   \<and> b64_encode (JSON_stringify jwt_header) = js ''eyJhbGciOiJIUzI1NiIsInR5cCI6IkpXVCJ9''"
  using header_text unfolding btoa_cases by (simp split: if_splits)

lemma signJWT_issued:
  "signJWT pf payload secret = Inr token \<longleftrightarrow>
     (\<exists>key. importKey pf secret = Inr key
        \<and> list_all (\<lambda>c. c \<le> 255) (JSON_stringify payload)
        \<and> token =
            js ''eyJhbGciOiJIUzI1NiIsInR5cCI6IkpXVCJ9'' @ 46 # b64_encode (JSON_stringify payload) @ 46 #
            b64_encode (map unat (HMAC_SHA256 pf key
              (js ''eyJhbGciOiJIUzI1NiIsInR5cCI6IkpXVCJ9'' @ 46 # b64_encode (JSON_stringify payload)))))"
  by (auto simp: signJWT_def btoa_cases header_encoded bytes_latin1 Let_def split: sum.splits)

lemma token_segments:
  assumes ascii: "list_all (\<lambda>c. c \<le> 255) text"
  shows "split_on 46 (js ''eyJhbGciOiJIUzI1NiIsInR5cCI6IkpXVCJ9'' @ 46 # b64_encode text @ 46 #
            b64_encode (map unat (tag :: byte list))) =
         [js ''eyJhbGciOiJIUzI1NiIsInR5cCI6IkpXVCJ9'', b64_encode text, b64_encode (map unat tag)]"
proof -
  have h: "46 \<notin> set (js ''eyJhbGciOiJIUzI1NiIsInR5cCI6IkpXVCJ9'')" by (simp add: js_def)
  have p: "46 \<notin> set (b64_encode text)" by (rule encode_no_dot [OF ascii])
  have s: "46 \<notin> set (b64_encode (map unat tag))" by (rule encode_no_dot [OF bytes_latin1])
  show ?thesis using split_three [OF h p s] by simp
qed

lemma tag_bytes: "map (of_nat \<circ> unat) (tag :: byte list) = tag"
  by (rule map_idI) simp

lemma verify_issued:
  assumes key: "importKey pf secret = Inr key"
      and ascii: "list_all (\<lambda>c. c \<le> 255) (JSON_stringify (anonymous_payload (JStr userId) now (now + ttl)))"
      and tag: "HMAC_SHA256 pf key (js ''eyJhbGciOiJIUzI1NiIsInR5cCI6IkpXVCJ9'' @ 46 #
                  b64_encode (JSON_stringify (anonymous_payload (JStr userId) now (now + ttl)))) \<noteq> []"
      and parse: "JSON_parse pf (JSON_stringify (anonymous_payload (JStr userId) now (now + ttl))) =
                    Inr (anonymous_payload (JStr userId) now (now + ttl))"
      and fresh: "now_ms < (now + ttl) * 1000"
  shows "verifyAnonymousToken pf
           (js ''eyJhbGciOiJIUzI1NiIsInR5cCI6IkpXVCJ9'' @ 46 #
            b64_encode (JSON_stringify (anonymous_payload (JStr userId) now (now + ttl))) @ 46 #
            b64_encode (map unat (HMAC_SHA256 pf key
              (js ''eyJhbGciOiJIUzI1NiIsInR5cCI6IkpXVCJ9'' @ 46 #
               b64_encode (JSON_stringify (anonymous_payload (JStr userId) now (now + ttl)))))))
           secret now_ms = Inr (anonymous_payload (JStr userId) now (now + ttl))"
proof -
  let ?payload = "anonymous_payload (JStr userId) now (now + ttl)"
  let ?h = "js ''eyJhbGciOiJIUzI1NiIsInR5cCI6IkpXVCJ9''"
  let ?p = "b64_encode (JSON_stringify ?payload)"
  let ?data = "?h @ 46 # ?p"
  let ?sig = "HMAC_SHA256 pf key ?data"
  let ?s = "b64_encode (map unat ?sig)"
  let ?token = "?h @ 46 # ?p @ 46 # ?s"
  have h: "?h \<noteq> []" by (simp add: js_def)
  have p: "?p \<noteq> []" by (simp add: encode_empty anonymous_payload_def)
  have s: "?s \<noteq> []" using tag by (simp add: encode_empty)
  have parts: "split_on 46 ?token = [?h, ?p, ?s]"
    by (rule token_segments [OF ascii])
  have sig: "atob ?s = Inr (map unat ?sig)"
    by (rule atob_encode [OF bytes_latin1])
  have body: "atob ?p = Inr (JSON_stringify ?payload)"
    by (rule atob_encode [OF ascii])
  have expiry: "get_prop ?payload ''exp'' = Inr (JNum (now + ttl))"
    by (simp add: anonymous_payload_def js_def)
  have kind: "get_prop ?payload ''type'' = Inr (JStr (js ''anonymous''))"
    by (simp add: anonymous_payload_def js_def)
  have verified: "verifyJWT pf ?token secret now_ms = Inr ?payload"
    unfolding verifyJWT_def verifyJWT_try_def parts
    using h p s fresh
    by (simp add: key sig tag_bytes body parse expiry Let_def)
  show ?thesis
    unfolding verifyAnonymousToken_def verified by (simp add: kind)
qed

text \<open>
  C1. For every identity, every secret and every reading \<open>now_ms\<close> of \<open>Date.now()\<close>
  with \<open>now_ms / 1000 < now + ttl\<close>: every token that \<open>signJWT\<close> issues for the payload
  \<open>{userId, iat: now, exp: now + ttl, type: 'anonymous'}\<close> verifies under the same secret,
  \<open>verifyAnonymousToken\<close> returning the payload, whose \<open>userId\<close> is the identity.
  \<open>signJWT\<close> issues a token exactly when the platform imports the secret as an HMAC key
  and the JSON text of the identity has no code unit above \<open>0xFF\<close>, on which \<open>btoa\<close>
  throws; the text of every identity that \<open>generateAnonymousUserId\<close> produces has none.
  The platform is taken to compute non-empty tags and to parse the JSON text of the payload
  back to the payload.
\<close>

theorem issue_verify_roundtrip:
  assumes tag: "\<And>key data. HMAC_SHA256 pf key data \<noteq> []"
      and parse: "JSON_parse pf (JSON_stringify (anonymous_payload (JStr userId) now (now + ttl))) =
                    Inr (anonymous_payload (JStr userId) now (now + ttl))"
      and fresh: "now_ms < (now + ttl) * 1000"
  shows "(\<forall>token. signJWT pf (anonymous_payload (JStr userId) now (now + ttl)) secret = Inr token \<longrightarrow>
            verifyAnonymousToken pf token secret now_ms =
              Inr (anonymous_payload (JStr userId) now (now + ttl))
            \<and> get_prop (anonymous_payload (JStr userId) now (now + ttl)) ''userId'' = Inr (JStr userId))
       \<and> ((\<exists>token. signJWT pf (anonymous_payload (JStr userId) now (now + ttl)) secret = Inr token)
            \<longleftrightarrow> list_all (\<lambda>c. c \<le> 255) (quote_units userId)
                \<and> (\<exists>key. importKey pf secret = Inr key))
       \<and> (\<forall>t randomBytes.
            list_all (\<lambda>c. c \<le> 255) (quote_units (generateAnonymousUserId t randomBytes)))"
proof (intro conjI allI impI)
  fix token
  assume "signJWT pf (anonymous_payload (JStr userId) now (now + ttl)) secret = Inr token"
  then obtain key where key: "importKey pf secret = Inr key"
    and ascii: "list_all (\<lambda>c. c \<le> 255) (JSON_stringify (anonymous_payload (JStr userId) now (now + ttl)))"
    and token: "token =
            js ''eyJhbGciOiJIUzI1NiIsInR5cCI6IkpXVCJ9'' @ 46 #
            b64_encode (JSON_stringify (anonymous_payload (JStr userId) now (now + ttl))) @ 46 #
            b64_encode (map unat (HMAC_SHA256 pf key
              (js ''eyJhbGciOiJIUzI1NiIsInR5cCI6IkpXVCJ9'' @ 46 #
               b64_encode (JSON_stringify (anonymous_payload (JStr userId) now (now + ttl))))))"
    unfolding signJWT_issued by blast
  show "verifyAnonymousToken pf token secret now_ms =
          Inr (anonymous_payload (JStr userId) now (now + ttl))"
    unfolding token by (rule verify_issued [OF key ascii tag parse fresh])
next
  fix token
  show "get_prop (anonymous_payload (JStr userId) now (now + ttl)) ''userId'' = Inr (JStr userId)"
    by (simp add: anonymous_payload_def js_def)
next
  show "(\<exists>token. signJWT pf (anonymous_payload (JStr userId) now (now + ttl)) secret = Inr token)
          \<longleftrightarrow> list_all (\<lambda>c. c \<le> 255) (quote_units userId) \<and> (\<exists>key. importKey pf secret = Inr key)"
    unfolding signJWT_issued payload_latin1_iff by blast
next
  fix t randomBytes
  show "list_all (\<lambda>c. c \<le> 255) (quote_units (generateAnonymousUserId t randomBytes))"
    by (rule quote_units_latin1 [OF generateAnonymousUserId_latin1])
qed


theorem issue_verify_roundtrip_witness:
  "signJWT test_platform (anonymous_payload (JStr (js ''anon_1_ab'')) 1000 (1000 + 3600)) (js ''k'')
     = Inr example_token
   \<and> verifyAnonymousToken test_platform example_token (js ''k'') 4500000
     = Inr (anonymous_payload (JStr (js ''anon_1_ab'')) 1000 (1000 + 3600))
   \<and> (\<exists>token. signJWT test_platform (anonymous_payload (JStr [55357]) 1000 (1000 + 3600)) (js ''k'')
                  = Inr token
         \<and> verifyAnonymousToken test_platform token (js ''k'') 4500000
             = Inr (anonymous_payload (JStr [55357]) 1000 (1000 + 3600)))"
proof -
  let ?payload = "anonymous_payload (JStr (js ''anon_1_ab'')) 1000 (1000 + 3600)"
  let ?lone = "anonymous_payload (JStr [55357]) 1000 (1000 + 3600)"
  have 1: "HMAC_SHA256 test_platform key data \<noteq> []" for key data
    by (simp add: test_platform_def checksum_def)
  have 2: "JSON_parse test_platform (JSON_stringify (anonymous_payload (JStr userId) 1000 (1000 + 3600))) =
             Inr (anonymous_payload (JStr userId) 1000 (1000 + 3600))" for userId
    by (simp add: test_platform_def read_json_payload)
  have 3: "(4500000 :: int) < (1000 + 3600) * 1000"
    by simp
  have issued: "signJWT test_platform ?payload (js ''k'') = Inr example_token"
    by (simp add: signJWT_def anonymous_payload_def jwt_header_def js_def btoa_def
          QuoteJSONString_def quote_unit_def is_high_surrogate_def is_low_surrogate_def
          Number_toString_def nat_digits.simps test_platform_def checksum_def b64_char_def
          example_token_def)
  have escaped: "list_all (\<lambda>c. c \<le> 255) (quote_units [55357])"
    by (simp add: quote_unit_def unicode_escape_def hex_digit_def is_high_surrogate_def)
  have key: "\<exists>key. importKey test_platform (js ''k'') = Inr key"
    by (simp add: test_platform_def js_def)
  from issue_verify_roundtrip [of test_platform "js ''anon_1_ab''" 1000 3600 4500000 "js ''k''", OF 1 2 3]
    issued
  have a: "verifyAnonymousToken test_platform example_token (js ''k'') 4500000 = Inr ?payload"
    by blast
  from issue_verify_roundtrip [of test_platform "[55357]" 1000 3600 4500000 "js ''k''", OF 1 2 3]
    escaped key
  have b: "\<exists>token. signJWT test_platform ?lone (js ''k'') = Inr token
         \<and> verifyAnonymousToken test_platform token (js ''k'') 4500000 = Inr ?lone"
    by blast
  from issued a b show ?thesis by blast
qed

subsection \<open>The order of metering and proxying\<close>

text \<open>
  A token verified under a secret whose tag differs from the tag it carries is rejected.
\<close>

lemma verify_other_secret:
  assumes ascii: "list_all (\<lambda>c. c \<le> 255) text"
      and differ: "\<And>key'. importKey pf secret' = Inr key' \<Longrightarrow>
                     HMAC_SHA256 pf key' (js ''eyJhbGciOiJIUzI1NiIsInR5cCI6IkpXVCJ9'' @ 46 # b64_encode text) \<noteq> tag"
  shows "verifyAnonymousToken pf
           (js ''eyJhbGciOiJIUzI1NiIsInR5cCI6IkpXVCJ9'' @ 46 # b64_encode text @ 46 #
            b64_encode (map unat tag))
           secret' now_ms = Inl (Error ''Invalid anonymous token'')"
proof -
  have sig: "atob (b64_encode (map unat tag)) = Inr (map unat tag)"
    by (rule atob_encode [OF bytes_latin1])
  have "\<exists>error. verifyJWT_try pf
           (js ''eyJhbGciOiJIUzI1NiIsInR5cCI6IkpXVCJ9'' @ 46 # b64_encode text @ 46 #
            b64_encode (map unat tag)) secret' now_ms = Inl error"
    unfolding verifyJWT_try_def token_segments [OF ascii]
    using differ
    by (auto simp: sig tag_bytes Let_def split: sum.splits)
  then show ?thesis
    by (auto simp: verifyAnonymousToken_def verifyJWT_def)
qed

text \<open>
  So is every token that the worker issues, on a platform where the tags under
  \<open>env.JWT_SECRET\<close> and under \<open>[object Object]\<close> differ.
\<close>

lemma issued_token_unauthorized:
  assumes issued: "generateAnonymousToken pf userId (JWT_SECRET e) now_ms = Inr token"
      and differ: "\<And>key key' data. importKey pf (JWT_SECRET e) = Inr key \<Longrightarrow>
                     importKey pf (env_ToString e) = Inr key' \<Longrightarrow>
                     HMAC_SHA256 pf key' data \<noteq> HMAC_SHA256 pf key data"
      and bearer: "authorization request = Some (js ''Bearer '' @ token)"
  shows "authenticateUser pf request e now = AuthFailure ''Invalid or expired token''"
proof -
  let ?payload = "anonymous_payload (JStr userId) (now_ms div 1000) (now_ms div 1000 + 30 * 24 * 60 * 60)"
  from issued obtain key where key: "importKey pf (JWT_SECRET e) = Inr key"
    and ascii: "list_all (\<lambda>c. c \<le> 255) (JSON_stringify ?payload)"
    and token: "token =
            js ''eyJhbGciOiJIUzI1NiIsInR5cCI6IkpXVCJ9'' @ 46 # b64_encode (JSON_stringify ?payload) @ 46 #
            b64_encode (map unat (HMAC_SHA256 pf key
              (js ''eyJhbGciOiJIUzI1NiIsInR5cCI6IkpXVCJ9'' @ 46 # b64_encode (JSON_stringify ?payload))))"
    unfolding generateAnonymousToken_def Let_def signJWT_issued by blast
  have rejected: "verifyAnonymousToken pf token (env_ToString e) now = Inl (Error ''Invalid anonymous token'')"
    unfolding token by (rule verify_other_secret [OF ascii differ [OF key]])
  show ?thesis
    unfolding authenticateUser_def bearer
    by (simp add: js_def rejected)
qed


text \<open>
  When \<open>authenticateUser\<close> does succeed, the order is the one described: whatever the body
  of the request and whatever the external service does, the environment after the request
  is the one in which the reading of the clock has been appended to the stored record and
  \<open>updateUserStats\<close> has run.
\<close>

lemma prior_stats_rate_update [simp]:
  "prior_stats (e\<lparr>RATE_LIMIT_KV := kv\<rparr>) userId now = prior_stats e userId now"
  by (simp add: prior_stats_def stored_stats_def)

lemma metering_precedes_body:
  assumes post: "req_method request = js ''POST''"
      and auth: "authenticateUser pf request e (t_verify clk) = AuthSuccess (JStr userId) issuedAt expiresAt"
      and reads: "\<not> get_fails (RATE_LIMIT_KV e)"
      and writes: "\<not> put_fails (RATE_LIMIT_KV e)"
      and slot: "length (in_window e userId (t_limit clk)) < maxRequests"
  shows "snd (handleExternalApiRequest pf ext request e cors clk) =
           updateUserStats
             (e\<lparr>RATE_LIMIT_KV := (RATE_LIMIT_KV e)\<lparr>entries := (entries (RATE_LIMIT_KV e))
                (rate_limit_key userId \<mapsto> (in_window e userId (t_limit clk) @ [t_limit clk], Some 3600))\<rparr>\<rparr>)
             userId (t_stats clk)
       \<and> stored_requests (snd (handleExternalApiRequest pf ext request e cors clk)) userId =
           in_window e userId (t_limit clk) @ [t_limit clk]
       \<and> (\<not> get_fails (USER_STATS_KV e) \<and> \<not> put_fails (USER_STATS_KV e) \<longrightarrow>
            (\<exists>after. stored_stats (snd (handleExternalApiRequest pf ext request e cors clk)) userId = Some after
               \<and> totalRequests after = totalRequests (prior_stats e userId (t_stats clk)) + 1))
       \<and> (\<forall>error. JSON_parse pf (req_body request) = Inl error \<longrightarrow>
            fst (handleExternalApiRequest pf ext request e cors clk) =
              Inr (json_response 400 (error_object ''Invalid JSON in request body'') cors))
       \<and> (\<forall>requestBody error.
            JSON_parse pf (req_body request) = Inr requestBody
            \<and> callExternalApi pf ext (snd (handleExternalApiRequest pf ext request e cors clk))
                 requestBody cors (t_processed clk) = Inl error \<longrightarrow>
            fst (handleExternalApiRequest pf ext request e cors clk) =
              Inr (json_response 503 (error_object ''External service unavailable'') cors))"
proof -
  let ?e1 = "e\<lparr>RATE_LIMIT_KV := (RATE_LIMIT_KV e)\<lparr>entries := (entries (RATE_LIMIT_KV e))
                (rate_limit_key userId \<mapsto> (in_window e userId (t_limit clk) @ [t_limit clk], Some 3600))\<rparr>\<rparr>"
  let ?e' = "updateUserStats ?e1 userId (t_stats clk)"
  have limit: "checkRateLimit e userId (t_limit clk) (t_stats clk) =
                 (\<lparr>allowed = True, retryAfter = None\<rparr>, ?e')"
    using reads writes slot by (simp add: checkRateLimit_cases)
  have handler: "handleExternalApiRequest pf ext request e cors clk =
      (case JSON_parse pf (req_body request) of
         Inl error \<Rightarrow> (Inr (json_response 400 (error_object ''Invalid JSON in request body'') cors), ?e')
       | Inr requestBody \<Rightarrow>
          (case callExternalApi pf ext ?e' requestBody cors (t_processed clk) of
             Inl error \<Rightarrow> (Inr (json_response 503 (error_object ''External service unavailable'') cors), ?e')
           | Inr externalResponse \<Rightarrow> (Inr externalResponse, ?e')))"
    unfolding handleExternalApiRequest_def
    using post auth limit by simp
  have env: "snd (handleExternalApiRequest pf ext request e cors clk) = ?e'"
    unfolding handler by (simp split: sum.splits)
  have stored: "stored_requests ?e' userId = in_window e userId (t_limit clk) @ [t_limit clk]"
    by (simp add: stored_requests_def)
  have counted: "\<exists>after. stored_stats ?e' userId = Some after
               \<and> totalRequests after = totalRequests (prior_stats e userId (t_stats clk)) + 1"
    if "\<not> get_fails (USER_STATS_KV e) \<and> \<not> put_fails (USER_STATS_KV e)"
    using update_step [of ?e1 userId "t_stats clk"] that by auto
  show ?thesis
    unfolding env
    using stored counted
    by (auto simp: handler)
qed

text \<open>
  C10. A \<open>POST\<close> to the proxied endpoint with a valid credential and room in the window is
  to append its reading of the clock to the rate-limit record and to count the request before
  its body is parsed, so that the request answered with 400 or 503 has consumed its slot. The
  worker does not get that far with a credential of its own: \<open>authenticateUser\<close> verifies
  under the string conversion of \<open>env\<close>, not under \<open>env.JWT_SECRET\<close>. On the test
  platform the worker answers the token request with \<open>issued_token\<close> and stores fresh
  statistics; the token verifies under the secret of the environment at the time of the second
  request; the request that carries it, with a body that is not JSON, is answered with 401
  and not with 400; and the environment is unchanged: no reading of the clock is stored for
  the identity and \<open>totalRequests\<close> is still 0.
\<close>

theorem issued_credential_unauthorized:
  "fetch test_platform test_service token_request test_env test_clock test_random =
     (json_response 200
        (JObj [(js ''token'', JStr issued_token),
               (js ''userId'', JStr issued_identity),
               (js ''expiresAt'', JNum 2593000000),
               (js ''rateLimit'',
                  JObj [(js ''maxRequests'', JNum 100), (js ''windowMs'', JNum 3600000)])])
        (corsHeaders test_env),
      initializeUserStats test_env issued_identity 1000000)
   \<and> verifyAnonymousToken test_platform issued_token (JWT_SECRET test_env) 4500000 =
       Inr (anonymous_payload (JStr issued_identity) 1000 2593000)
   \<and> fetch test_platform test_service issued_request
         (initializeUserStats test_env issued_identity 1000000) test_clock test_random =
       (json_response 401 (error_object ''Invalid or expired token'') (corsHeaders test_env),
        initializeUserStats test_env issued_identity 1000000)
   \<and> stored_requests (initializeUserStats test_env issued_identity 1000000) issued_identity = []
   \<and> map_option totalRequests
         (stored_stats (initializeUserStats test_env issued_identity 1000000) issued_identity) = Some 0"
proof -
  let ?e = "initializeUserStats test_env issued_identity 1000000"
  have identity: "generateAnonymousUserId 1000000 test_random = issued_identity"
    by (simp add: generateAnonymousUserId_def test_random_def hex_byte_def hex_digit_def js_def
          Number_toString_def nat_digits.simps issued_identity_def)
  have token: "generateAnonymousToken test_platform issued_identity (js ''secret'') 1000000 =
                 Inr issued_token"
    by (simp add: generateAnonymousToken_def signJWT_def anonymous_payload_def jwt_header_def
          js_def btoa_def QuoteJSONString_def quote_unit_def is_high_surrogate_def
          is_low_surrogate_def Number_toString_def nat_digits.simps test_platform_def
          checksum_def b64_char_def issued_token_def issued_identity_def)
  have secret: "JWT_SECRET test_env = js ''secret''"
    by (simp add: test_env_def)
  have clock: "t_id test_clock = 1000000" "t_token test_clock = 1000000"
    "t_init test_clock = 1000000" "t_expires test_clock = 1000000" "t_verify test_clock = 4500000"
    by (simp_all add: test_clock_def)
  have post: "req_method token_request = js ''POST''" "pathname token_request = js ''/api/token''"
    by (simp_all add: token_request_def)
  have routes: "js ''POST'' \<noteq> js ''OPTIONS''" "js ''/api/token'' \<noteq> js ''/api/external-service''"
    by (simp_all add: js_def)
  have a: "fetch test_platform test_service token_request test_env test_clock test_random =
     (json_response 200
        (JObj [(js ''token'', JStr issued_token),
               (js ''userId'', JStr issued_identity),
               (js ''expiresAt'', JNum 2593000000),
               (js ''rateLimit'',
                  JObj [(js ''maxRequests'', JNum 100), (js ''windowMs'', JNum 3600000)])])
        (corsHeaders test_env), ?e)"
    unfolding fetch_def handleTokenRequest_def Let_def post clock identity secret token
    using routes by simp
  have b: "verifyAnonymousToken test_platform issued_token (JWT_SECRET test_env) 4500000 =
       Inr (anonymous_payload (JStr issued_identity) 1000 2593000)"
    by (simp add: secret verifyAnonymousToken_def verifyJWT_def verifyJWT_try_def
          anonymous_payload_def js_def atob_def b64_index_def is_ascii_whitespace_def
          test_platform_def checksum_def read_json_def read_value.simps read_members.simps
          read_elements.simps read_number_def read_natural_def is_digit_def hex_value_def
          unescape_def Let_def issued_token_def issued_identity_def)
  have cors: "corsHeaders ?e = corsHeaders test_env"
    by (simp add: corsHeaders_def initializeUserStats_def Let_def kv_put_def test_env_def test_kv_def)
  have differ: "HMAC_SHA256 test_platform key' data \<noteq> HMAC_SHA256 test_platform key data"
    if "importKey test_platform (JWT_SECRET ?e) = Inr key"
      and "importKey test_platform (env_ToString ?e) = Inr key'" for key key' data
    using that
    by (auto simp: test_platform_def checksum_def env_ToString_def js_def initializeUserStats_def
          Let_def kv_put_def test_env_def test_kv_def)
  have secret': "JWT_SECRET ?e = js ''secret''"
    by (simp add: initializeUserStats_def Let_def kv_put_def test_env_def test_kv_def)
  have bearer: "authorization issued_request = Some (js ''Bearer '' @ issued_token)"
    by (simp add: issued_request_def)
  have auth: "authenticateUser test_platform issued_request ?e 4500000 =
                AuthFailure ''Invalid or expired token''"
    by (rule issued_token_unauthorized [of test_platform issued_identity ?e 1000000, OF _ differ bearer])
       (simp_all add: secret' token)
  have post': "req_method issued_request = js ''POST''"
    "pathname issued_request = js ''/api/external-service''"
    by (simp_all add: issued_request_def)
  have c: "fetch test_platform test_service issued_request ?e test_clock test_random =
       (json_response 401 (error_object ''Invalid or expired token'') (corsHeaders test_env), ?e)"
    unfolding fetch_def handleExternalApiRequest_def Let_def post' clock auth cors
    using routes by simp
  have d: "stored_requests ?e issued_identity = []"
    by (simp add: stored_requests_def initializeUserStats_def Let_def kv_put_def test_env_def
          test_kv_def)
  have e: "map_option totalRequests (stored_stats ?e issued_identity) = Some 0"
    by (simp add: stored_stats_def stats_key_def initializeUserStats_def Let_def kv_put_def
          test_env_def test_kv_def)
  from a b c d e show ?thesis by simp
qed

end
